theory Spec2Isabelle
  imports Complex_Main
begin

section \<open>Numbers and time\<close>

text \<open>
  The dashboard (\<^verbatim>\<open>app.py\<close>) and the ingestor (\<^verbatim>\<open>ingest.py\<close>) compute with Python
  floats and pandas timestamps.  Prices are modelled as real numbers (rounding is not
  modelled), and the special float values that the code can produce are kept apart in
  \<open>pyfloat\<close>: a finite value, the two infinities and NaN.  A timestamp is a naive
  wall-clock instant, counted in milliseconds from 1970-01-01T00:00:00.
\<close>

datatype pyfloat = Fin real | PInf | NInf | NaN

type_synonym timestamp = int

text \<open>Float subtraction, division, absolute value and the comparison \<^verbatim>\<open>a > b\<close>, which is
  false whenever an operand is NaN.\<close>

fun fsub :: "pyfloat \<Rightarrow> pyfloat \<Rightarrow> pyfloat" where
  "fsub (Fin a) (Fin b) = Fin (a - b)"
| "fsub NaN _ = NaN"
| "fsub _ NaN = NaN"
| "fsub PInf PInf = NaN"
| "fsub NInf NInf = NaN"
| "fsub PInf _ = PInf"
| "fsub NInf _ = NInf"
| "fsub (Fin a) PInf = NInf"
| "fsub (Fin a) NInf = PInf"

fun fdiv :: "pyfloat \<Rightarrow> pyfloat \<Rightarrow> pyfloat" where
  "fdiv (Fin a) (Fin b) =
     (if b = 0 then (if a = 0 then NaN else if 0 < a then PInf else NInf)
      else Fin (a / b))"
| "fdiv NaN _ = NaN"
| "fdiv _ NaN = NaN"
| "fdiv (Fin a) PInf = Fin 0"
| "fdiv (Fin a) NInf = Fin 0"
| "fdiv PInf (Fin b) = (if 0 \<le> b then PInf else NInf)"
| "fdiv NInf (Fin b) = (if 0 \<le> b then NInf else PInf)"
| "fdiv PInf _ = NaN"
| "fdiv NInf _ = NaN"

fun fabs :: "pyfloat \<Rightarrow> pyfloat" where
  "fabs (Fin a) = Fin \<bar>a\<bar>"
| "fabs PInf = PInf"
| "fabs NInf = PInf"
| "fabs NaN = NaN"

fun fgt :: "pyfloat \<Rightarrow> real \<Rightarrow> bool" where
  "fgt (Fin a) t = (t < a)"
| "fgt PInf t = True"
| "fgt NInf t = False"
| "fgt NaN t = False"

section \<open>The alert check\<close>

text \<open>\<^verbatim>\<open>if abs(current_z) > alert_z_score:\<close> (app.py, line 171).\<close>

definition alert_breach :: "pyfloat \<Rightarrow> real \<Rightarrow> bool" where
  "alert_breach current_z alert_z_score = fgt (fabs current_z) alert_z_score"

section \<open>Reading the tick store\<close>

text \<open>
  \<open>load_data\<close> sees the database file in one of three states: the file is absent, the
  file is there without the \<^verbatim>\<open>ticks\<close> table (the query raises a \<^verbatim>\<open>DatabaseError\<close>, which
  is caught), or the table holds rows \<open>(ts, symbol, price)\<close> with \<open>ts\<close> as ISO-8601 text.
  pandas' timestamp parser is a parameter \<open>to_datetime\<close>; a text it rejects makes
  \<^verbatim>\<open>pd.to_datetime\<close> raise, which \<open>load_data\<close> does not catch.
\<close>

datatype storage = NoFile | NoTable | Ticks "(string \<times> string \<times> real) list"

datatype error = ParseError | StatsError

record raw_frame =
  columns :: "string list"
  rows :: "(timestamp \<times> string \<times> real) list"

definition empty_frame :: raw_frame where
  "empty_frame = \<lparr>columns = [], rows = []\<rparr>"

definition is_empty :: "raw_frame \<Rightarrow> bool" where
  "is_empty df = (columns df = [] \<or> rows df = [])"

fun parse_rows :: "(string \<Rightarrow> timestamp option) \<Rightarrow> (string \<times> string \<times> real) list
    \<Rightarrow> error + (timestamp \<times> string \<times> real) list" where
  "parse_rows to_datetime [] = Inr []"
| "parse_rows to_datetime ((txt, s, p) # rs) =
     (case to_datetime txt of
        None \<Rightarrow> Inl ParseError
      | Some t \<Rightarrow>
          (case parse_rows to_datetime rs of
             Inl e \<Rightarrow> Inl e
           | Inr rs' \<Rightarrow> Inr ((t, s, p) # rs')))"

fun load_data :: "(string \<Rightarrow> timestamp option) \<Rightarrow> storage \<Rightarrow> error + raw_frame" where
  "load_data to_datetime NoFile = Inr empty_frame"
| "load_data to_datetime NoTable = Inr empty_frame"
| "load_data to_datetime (Ticks rs) =
     (if rs = [] then Inr empty_frame
      else (case parse_rows to_datetime rs of
              Inl e \<Rightarrow> Inl e
            | Inr rs' \<Rightarrow> Inr \<lparr>columns = [''ts'', ''symbol'', ''price''], rows = rs'\<rparr>))"

section \<open>Aligning the two symbols\<close>

text \<open>
  A pandas Series indexed by timestamp is a list of \<open>(timestamp, price)\<close> pairs in row
  order.  A frame whose cells may be missing has optional prices (\<open>None\<close> is NaN); a
  frame that went through \<^verbatim>\<open>dropna()\<close> has both prices in every row.
\<close>

type_synonym series = "(timestamp \<times> real) list"
type_synonym frame_na = "(timestamp \<times> real option \<times> real option) list"
type_synonym frame = "(timestamp \<times> real \<times> real) list"

text \<open>\<^verbatim>\<open>df[df['symbol'] == name].set_index('ts')['price']\<close>\<close>

definition select_symbol :: "string \<Rightarrow> raw_frame \<Rightarrow> series" where
  "select_symbol name df =
     map (\<lambda>(t, s, p). (t, p)) (filter (\<lambda>(t, s, p). s = name) (rows df))"

definition is_unique :: "series \<Rightarrow> bool" where
  "is_unique s = distinct (map fst s)"

definition mean :: "real list \<Rightarrow> real" where
  "mean xs = sum_list xs / real (length xs)"

text \<open>\<^verbatim>\<open>s.groupby(s.index).mean()\<close>: one row per distinct timestamp, the keys in
  ascending order, the value the mean of the prices at that timestamp.\<close>

definition groupby_mean :: "series \<Rightarrow> series" where
  "groupby_mean s =
     map (\<lambda>t. (t, mean (map snd (filter (\<lambda>r. fst r = t) s))))
       (sort (remdups (map fst s)))"

text \<open>Lines 51 to 59: average the duplicates when the index is not unique.\<close>

definition dedup_series :: "series \<Rightarrow> series" where
  "dedup_series s = (if \<not> is_unique s then groupby_mean s else s)"

text \<open>
  \<^verbatim>\<open>pd.concat([btc, eth], axis=1, keys=[...])\<close> joins the two series on the union of their
  indexes.  For two datetime indexes pandas 2 returns the left index as it is when both
  are equal, and the sorted union otherwise; each series is then looked up at every
  timestamp of the union.
\<close>

definition union_index :: "timestamp list \<Rightarrow> timestamp list \<Rightarrow> timestamp list" where
  "union_index a b = (if a = b then a else sort (remdups (a @ b)))"

definition concat_columns :: "series \<Rightarrow> series \<Rightarrow> frame_na" where
  "concat_columns a b =
     map (\<lambda>t. (t, map_of a t, map_of b t)) (union_index (map fst a) (map fst b))"

text \<open>\<^verbatim>\<open>ffill()\<close> works on each column, down the rows: a missing cell takes the last cell
  above it that is present.\<close>

fun ffill_col :: "real option \<Rightarrow> real option list \<Rightarrow> real option list" where
  "ffill_col prev [] = []"
| "ffill_col prev (None # cs) = prev # ffill_col prev cs"
| "ffill_col prev (Some v # cs) = Some v # ffill_col (Some v) cs"

definition ffill :: "frame_na \<Rightarrow> frame_na" where
  "ffill f =
     zip (map fst f)
       (zip (ffill_col None (map (\<lambda>r. fst (snd r)) f))
            (ffill_col None (map (\<lambda>r. snd (snd r)) f)))"

text \<open>\<^verbatim>\<open>dropna()\<close> keeps the rows in which no cell is missing.\<close>

fun dropna :: "frame_na \<Rightarrow> frame" where
  "dropna [] = []"
| "dropna ((t, Some b, Some e) # rs) = (t, b, e) # dropna rs"
| "dropna (_ # rs) = dropna rs"

definition get_pair_data :: "raw_frame \<Rightarrow> frame" where
  "get_pair_data df =
     (if is_empty df \<or> ''symbol'' \<notin> set (columns df) then []
      else
        let btc_df = select_symbol ''btcusdt'' df;
            eth_df = select_symbol ''ethusdt'' df;
            btc = dedup_series btc_df;
            eth = dedup_series eth_df
        in if btc = [] \<or> eth = [] then []
           else dropna (ffill (concat_columns btc eth)))"

text \<open>The earliest timestamp of a non-empty series.\<close>

definition first_ts :: "series \<Rightarrow> timestamp" where
  "first_ts s = Min (set (map fst s))"

section \<open>Resampling\<close>

text \<open>
  \<^verbatim>\<open>pair_df.resample(timeframe).last().dropna()\<close> for a timeframe of fixed width \<open>w\<close>, in
  milliseconds; the timeframe \<^verbatim>\<open>1s\<close> is \<open>w = 1000\<close>.  The buckets are left-closed and
  labelled by their left edge; for a width that divides a day the edges are the
  multiples of the width.  pandas makes one row for every bucket from the one of the
  earliest timestamp to the one of the latest; a bucket with no row in it gets missing
  cells, and \<^verbatim>\<open>last()\<close> takes the last row of the bucket in time order.  How pandas reads
  the timeframe strings \<^verbatim>\<open>1m\<close> and \<^verbatim>\<open>5m\<close> is not modelled here.
\<close>

definition bucket :: "int \<Rightarrow> timestamp \<Rightarrow> timestamp" where
  "bucket w t = (t div w) * w"

definition bin_labels :: "int \<Rightarrow> timestamp list \<Rightarrow> timestamp list" where
  "bin_labels w ts =
     (let lo = bucket w (Min (set ts)); hi = bucket w (Max (set ts))
      in map (\<lambda>k. lo + int k * w) [0 ..< Suc (nat ((hi - lo) div w))])"

definition resample_last :: "int \<Rightarrow> frame \<Rightarrow> frame_na" where
  "resample_last w df =
     (if df = [] then []
      else
        let srt = sort_key fst df
        in map (\<lambda>b. let rs = filter (\<lambda>r. bucket w (fst r) = b) srt
                     in if rs = [] then (b, None, None)
                        else (b, Some (fst (snd (last rs))), Some (snd (snd (last rs)))))
             (bin_labels w (map fst df)))"

definition resampled :: "int \<Rightarrow> frame \<Rightarrow> frame" where
  "resampled w pair_df = dropna (resample_last w pair_df)"

section \<open>Analytics\<close>

text \<open>
  \<^verbatim>\<open>series.rolling(window=w)\<close> with the default \<^verbatim>\<open>min_periods = w\<close>: the statistic at row \<open>i\<close>
  is NaN while fewer than \<open>w\<close> rows are available, and is computed from the \<open>w\<close> rows
  ending at \<open>i\<close> afterwards.  \<^verbatim>\<open>mean()\<close> of no observation is NaN; \<^verbatim>\<open>std()\<close> is the sample
  standard deviation (\<open>ddof = 1\<close>), NaN unless there are at least two observations.
\<close>

definition window :: "nat \<Rightarrow> nat \<Rightarrow> 'a list \<Rightarrow> 'a list" where
  "window w i xs = take w (drop (Suc i - w) xs)"

definition rolling :: "nat \<Rightarrow> ('a list \<Rightarrow> pyfloat) \<Rightarrow> 'a list \<Rightarrow> pyfloat list" where
  "rolling w f xs = map (\<lambda>i. if Suc i < w then NaN else f (window w i xs)) [0 ..< length xs]"

definition win_mean :: "real list \<Rightarrow> pyfloat" where
  "win_mean xs = (if xs = [] then NaN else Fin (mean xs))"

definition sample_var :: "real list \<Rightarrow> real" where
  "sample_var xs = sum_list (map (\<lambda>x. (x - mean xs)\<^sup>2) xs) / (real (length xs) - 1)"

definition win_std :: "real list \<Rightarrow> pyfloat" where
  "win_std xs = (if length xs \<le> 1 then NaN else Fin (sqrt (sample_var xs)))"

text \<open>\<^verbatim>\<open>a.rolling(w).corr(b)\<close>: the sample covariance of the window over the square root of
  the product of the two sample variances, as a float division.\<close>

definition sample_cov :: "(real \<times> real) list \<Rightarrow> real" where
  "sample_cov ps =
     sum_list (map (\<lambda>(x, y). (x - mean (map fst ps)) * (y - mean (map snd ps))) ps)
       / (real (length ps) - 1)"

definition win_corr :: "(real \<times> real) list \<Rightarrow> pyfloat" where
  "win_corr ps =
     (if length ps \<le> 1 then NaN
      else fdiv (Fin (sample_cov ps))
             (Fin (sqrt (sample_var (map fst ps) * sample_var (map snd ps)))))"

text \<open>
  \<^verbatim>\<open>sm.OLS(y, sm.add_constant(x)).fit().params['btc_price']\<close>: the least-squares slope of
  \<open>y\<close> on \<open>x\<close> with an intercept.  When \<open>x\<close> is one non-zero constant, \<^verbatim>\<open>add_constant\<close>
  adds no column and the fit is through the origin; when \<open>x\<close> is zero throughout, the
  pseudo-inverse gives slope zero.
\<close>

definition ols_slope :: "real list \<Rightarrow> real list \<Rightarrow> real" where
  "ols_slope xs ys =
     (let n = real (length xs);
          sx = sum_list xs; sy = sum_list ys;
          sxx = sum_list (map (\<lambda>x. x * x) xs);
          sxy = sum_list (map (\<lambda>(x, y). x * y) (zip xs ys));
          d = n * sxx - sx * sx
      in if d \<noteq> 0 then (n * sxy - sx * sy) / d
         else if sxx \<noteq> 0 then sxy / sxx
         else 0)"

text \<open>Lines 75 to 81: the hedge ratio and the spread.\<close>

definition hedge_ratio_of :: "frame \<Rightarrow> real" where
  "hedge_ratio_of df = ols_slope (map (\<lambda>r. fst (snd r)) df) (map (\<lambda>r. snd (snd r)) df)"

definition spread_of :: "frame \<Rightarrow> real list" where
  "spread_of df = map (\<lambda>(t, btc_price, eth_price). eth_price - hedge_ratio_of df * btc_price) df"

text \<open>Lines 84 to 86: the rolling z-score of a spread.\<close>

definition z_score_of :: "nat \<Rightarrow> real list \<Rightarrow> pyfloat list" where
  "z_score_of w spread =
     (let spread_mean = rolling w win_mean spread;
          spread_std = rolling w win_std spread
      in map2 fdiv (map2 fsub (map Fin spread) spread_mean) spread_std)"

text \<open>
  The snapshot that \<open>calculate_analytics\<close> returns.  Its series keep the timestamp index of
  the frame they were computed from.  The text of the model summary is left out.
\<close>

record snapshot =
  hedge_ratio :: real
  spread :: "(timestamp \<times> real) list"
  z_score :: "(timestamp \<times> pyfloat) list"
  rolling_corr :: "(timestamp \<times> pyfloat) list"
  adf_p_value :: real

text \<open>
  The body of \<open>calculate_analytics\<close> (lines 74 to 102).  The stationarity test of
  statsmodels is a parameter \<open>adfuller\<close>, which gives a p-value or raises.  The regression
  raises on a frame with no row.
\<close>

definition calculate_analytics_body ::
    "(real list \<Rightarrow> error + real) \<Rightarrow> frame \<Rightarrow> nat \<Rightarrow> error + snapshot" where
  "calculate_analytics_body adfuller df w =
     (if df = [] then Inl StatsError
      else
        let idx = map fst df;
            sp = spread_of df;
            z = z_score_of w sp;
            corr = rolling w win_corr (map snd df)
        in case adfuller sp of
             Inl e \<Rightarrow> Inl e
           | Inr pv \<Rightarrow>
               Inr \<lparr>hedge_ratio = hedge_ratio_of df, spread = zip idx sp, z_score = zip idx z,
                    rolling_corr = zip idx corr, adf_p_value = pv\<rparr>)"

text \<open>
  \<open>calculate_analytics\<close> is decorated with \<^verbatim>\<open>@st.cache_resource\<close>, and Streamlit leaves a
  parameter whose name starts with an underscore, here \<^verbatim>\<open>_pair_df_resampled\<close>, out of the
  cache key.  The function is therefore memoised on \<open>window\<close> alone: a call finds the
  snapshot stored for its window, whatever the frame, and only a call that finds none runs
  the body and stores what it returns.  A call that raises stores nothing.
\<close>

type_synonym analytics_cache = "nat \<Rightarrow> snapshot option"

definition calculate_analytics ::
    "(real list \<Rightarrow> error + real) \<Rightarrow> analytics_cache \<Rightarrow> frame \<Rightarrow> nat
     \<Rightarrow> (error + snapshot) \<times> analytics_cache" where
  "calculate_analytics adfuller cache df w =
     (case cache w of
        Some a \<Rightarrow> (Inr a, cache)
      | None \<Rightarrow>
          (case calculate_analytics_body adfuller df w of
             Inl e \<Rightarrow> (Inl e, cache)
           | Inr a \<Rightarrow> (Inr a, cache(w \<mapsto> a))))"

section \<open>The dashboard script\<close>

text \<open>
  One run of the script body of \<^verbatim>\<open>app.py\<close> (lines 131 to 172), from the cache of
  \<open>calculate_analytics\<close> that earlier runs left to the one this run leaves.  Each
  \<^verbatim>\<open>st.warning\<close> followed by \<^verbatim>\<open>st.stop()\<close> is an outcome of its own; an uncaught exception is
  \<open>Failed\<close>; otherwise the run shows the snapshot, the current z-score and whether the
  alert fired.  The resampling for the timeframe chosen in the sidebar is the parameter
  \<open>resample\<close>; for \<^verbatim>\<open>1s\<close> it is \<open>resampled 1000\<close>.  \<open>get_pair_data\<close> is memoised on its whole
  argument, which changes no result; the ten-second cache of \<open>load_data\<close> is not modelled.
\<close>

text \<open>\<^verbatim>\<open>resampled_df['z_score'] = analytics['z_score']\<close> aligns the series with the index of
  the frame: a row whose timestamp the series does not have gets NaN.  The index of a
  resampled frame has no duplicates.\<close>

definition assign_column :: "frame \<Rightarrow> (timestamp \<times> pyfloat) list \<Rightarrow> pyfloat list" where
  "assign_column df s = map (\<lambda>r. case map_of s (fst r) of None \<Rightarrow> NaN | Some v \<Rightarrow> v) df"

datatype outcome =
    NoDataFound
  | WaitingBothSymbols
  | WaitingMoreData
  | Failed error
  | Dashboard snapshot pyfloat bool

definition run_dashboard ::
    "(string \<Rightarrow> timestamp option) \<Rightarrow> (real list \<Rightarrow> error + real) \<Rightarrow> (frame \<Rightarrow> frame)
     \<Rightarrow> analytics_cache \<Rightarrow> storage \<Rightarrow> nat \<Rightarrow> real \<Rightarrow> outcome \<times> analytics_cache" where
  "run_dashboard to_datetime adfuller resample cache db rolling_window alert_z_score =
     (case load_data to_datetime db of
        Inl e \<Rightarrow> (Failed e, cache)
      | Inr raw_df \<Rightarrow>
          if is_empty raw_df then (NoDataFound, cache)
          else
            let pair_df = get_pair_data raw_df
            in if pair_df = [] then (WaitingBothSymbols, cache)
               else
                 let resampled_df = resample pair_df
                 in if resampled_df = [] \<or> length resampled_df < rolling_window
                    then (WaitingMoreData, cache)
                    else
                      (case calculate_analytics adfuller cache resampled_df rolling_window of
                         (Inl e, cache') \<Rightarrow> (Failed e, cache')
                       | (Inr analytics, cache') \<Rightarrow>
                           let current_z = last (assign_column resampled_df (z_score analytics))
                           in (Dashboard analytics current_z
                                 (alert_breach current_z alert_z_score), cache')))"

section \<open>Normalising a trade message\<close>

text \<open>
  \<open>normalize_trade_data\<close> of \<^verbatim>\<open>ingest.py\<close>.  A message carries the trade time \<open>T\<close> in epoch
  milliseconds, the price \<open>p\<close> and the quantity \<open>q\<close>; a field is \<open>None\<close> when the key is
  missing or \<^verbatim>\<open>float()\<close> rejects it, and then the \<^verbatim>\<open>except\<close> branch returns \<^verbatim>\<open>None\<close>.
\<close>

record trade_msg =
  msg_T :: "int option"
  msg_p :: "real option"
  msg_q :: "real option"

text \<open>
  \<^verbatim>\<open>data['T'] / 1000\<close> is a float: the quotient of the two integers, rounded to the nearest
  binary64 number, ties to even.  \<open>fl64\<close> is this rounding for a number in the normal
  range; a quotient too large for a float ends in the \<^verbatim>\<open>except\<close> branch, as its year does
  here.
\<close>

definition round_half_even :: "real \<Rightarrow> int" where
  "round_half_even x =
     (let f = \<lfloor>x\<rfloor>; r = x - of_int f
      in if r < 1 / 2 then f else if 1 / 2 < r then f + 1 else if even f then f else f + 1)"

definition fl64 :: "real \<Rightarrow> real" where
  "fl64 x =
     (if x = 0 then 0
      else let q = 2 powr (of_int \<lfloor>log 2 \<bar>x\<bar>\<rfloor> - 52)
           in of_int (round_half_even (x / q)) * q)"

definition py_truediv :: "int \<Rightarrow> int \<Rightarrow> real" where
  "py_truediv a b = fl64 (of_int a / of_int b)"

text \<open>
  \<^verbatim>\<open>datetime.fromtimestamp\<close> first splits the float into whole seconds and microseconds:
  the integral part towards zero, the fraction times \<open>10\<^sup>6\<close> as a float, rounded half to even,
  and a carry when the microseconds leave the range.
\<close>

definition to_timeval :: "real \<Rightarrow> int \<times> int" where
  "to_timeval d =
     (let intpart = (if 0 \<le> d then \<lfloor>d\<rfloor> else \<lceil>d\<rceil>);
          floatpart = round_half_even (fl64 ((d - of_int intpart) * 1000000))
      in if 1000000 \<le> floatpart then (intpart + 1, floatpart - 1000000)
         else if floatpart < 0 then (intpart - 1, floatpart + 1000000)
         else (intpart, floatpart))"

text \<open>The proleptic Gregorian date (year, month, day) of a day number counted from
  1970-01-01.\<close>

definition civil_from_days :: "int \<Rightarrow> int \<times> int \<times> int" where
  "civil_from_days z =
     (let z1 = z + 719468;
          era = z1 div 146097;
          doe = z1 mod 146097;
          yoe = (doe - doe div 1460 + doe div 36524 - doe div 146096) div 365;
          y = yoe + era * 400;
          doy = doe - (365 * yoe + yoe div 4 - yoe div 100);
          mp = (5 * doy + 2) div 153;
          d = doy - (153 * mp + 2) div 5 + 1;
          m = (if mp < 10 then mp + 3 else mp - 9)
      in (if m \<le> 2 then y + 1 else y, m, d))"

text \<open>
  Without a time zone argument the result is the wall-clock time of the host:
  \<open>utcoffset s\<close> is the host's offset from UTC, in seconds, at the epoch second \<open>s\<close>.  The
  call raises unless the local year is within 1 to 9999, and so is the local year of the
  instant one day earlier, which it probes to detect a repeated hour (and of a third
  instant when the offset dropped during that day).  The result is the count of local
  seconds from 1970-01-01T00:00:00 and the microseconds.
\<close>

definition year_of_local :: "(int \<Rightarrow> int) \<Rightarrow> int \<Rightarrow> int" where
  "year_of_local utcoffset s = fst (civil_from_days ((s + utcoffset s) div 86400))"

definition year_ok :: "int \<Rightarrow> bool" where
  "year_ok y = (1 \<le> y \<and> y \<le> 9999)"

definition fromtimestamp :: "(int \<Rightarrow> int) \<Rightarrow> real \<Rightarrow> (int \<times> int) option" where
  "fromtimestamp utcoffset d =
     (let (sec, us) = to_timeval d;
          transition = utcoffset sec - utcoffset (sec - 86400)
      in if \<not> year_ok (year_of_local utcoffset sec) then None
         else if \<not> year_ok (year_of_local utcoffset (sec - 86400)) then None
         else if transition < 0 \<and> \<not> year_ok (year_of_local utcoffset (sec + transition))
           then None
         else Some (sec + utcoffset sec, us))"

definition digit :: "nat \<Rightarrow> char" where
  "digit d = ''0123456789'' ! (d mod 10)"

definition pad2 :: "nat \<Rightarrow> string" where
  "pad2 n = [digit (n div 10), digit n]"

definition pad4 :: "nat \<Rightarrow> string" where
  "pad4 n = [digit (n div 1000), digit (n div 100), digit (n div 10), digit n]"

definition pad6 :: "nat \<Rightarrow> string" where
  "pad6 n = [digit (n div 100000), digit (n div 10000), digit (n div 1000),
             digit (n div 100), digit (n div 10), digit n]"

text \<open>\<^verbatim>\<open>datetime.isoformat()\<close>: \<^verbatim>\<open>YYYY-MM-DDTHH:MM:SS\<close>, followed by a point and the six
  digits of the microseconds when they are not zero.\<close>

definition isoformat :: "int \<Rightarrow> int \<Rightarrow> string" where
  "isoformat local us =
     (let (y, m, d) = civil_from_days (local div 86400);
          r = nat (local mod 86400)
      in pad4 (nat y) @ ''-'' @ pad2 (nat m) @ ''-'' @ pad2 (nat d) @ ''T''
         @ pad2 (r div 3600) @ '':'' @ pad2 (r div 60 mod 60) @ '':'' @ pad2 (r mod 60)
         @ (if us = 0 then [] else ''.'' @ pad6 (nat us)))"

definition normalize_trade_data ::
    "(int \<Rightarrow> int) \<Rightarrow> string \<Rightarrow> trade_msg \<Rightarrow> (string \<times> string \<times> real \<times> real) option" where
  "normalize_trade_data utcoffset symbol data =
     (case msg_T data of
        None \<Rightarrow> None
      | Some t \<Rightarrow>
          (case fromtimestamp utcoffset (py_truediv t 1000) of
             None \<Rightarrow> None
           | Some (local, us) \<Rightarrow>
               (case (msg_p data, msg_q data) of
                  (Some price, Some qty) \<Rightarrow> Some (isoformat local us, symbol, price, qty)
                | _ \<Rightarrow> None)))"

section \<open>Concrete inputs\<close>

text \<open>The two symbols the aligner looks for.\<close>

definition tracked :: "timestamp \<times> string \<times> real \<Rightarrow> bool" where
  "tracked r = (fst (snd r) = ''btcusdt'' \<or> fst (snd r) = ''ethusdt'')"

text \<open>A host whose clock is on UTC, and one that is an hour ahead of it.\<close>

definition host_utc :: "int \<Rightarrow> int" where
  "host_utc s = 0"

definition host_plus1 :: "int \<Rightarrow> int" where
  "host_plus1 s = 3600"

text \<open>A trade message with \<open>T = 1700000000123\<close>, which is 2023-11-14 22:13:20.123 UTC.\<close>

definition trade_example :: trade_msg where
  "trade_example =
     \<lparr>msg_T = Some 1700000000123, msg_p = Some (4300010 / 100), msg_q = Some (5 / 1000)\<rparr>"

text \<open>A snapshot in which \<open>ethusdt\<close> reports before \<open>btcusdt\<close>, \<open>btcusdt\<close> has two ticks
  at the same millisecond, and a third symbol occurs.\<close>

definition ticks_example :: raw_frame where
  "ticks_example =
     \<lparr>columns = [''ts'', ''symbol'', ''price''],
      rows = [(0, ''ethusdt'', 10), (1000, ''btcusdt'', 100), (1000, ''btcusdt'', 102),
              (2000, ''ethusdt'', 11), (130000, ''btcusdt'', 104), (130000, ''xrpusdt'', 1)]\<rparr>"

text \<open>A snapshot with no tick of either symbol between 00:00:00.200 and
  00:00:02.500.\<close>

definition ticks_gap :: raw_frame where
  "ticks_gap =
     \<lparr>columns = [''ts'', ''symbol'', ''price''],
      rows = [(0, ''btcusdt'', 100), (200, ''ethusdt'', 10),
              (2500, ''btcusdt'', 101), (2700, ''ethusdt'', 11)]\<rparr>"

text \<open>
  The statistics of the specification, written over the indices \<open>i - w + 1 .. i\<close> of the
  spread: the mean, and the sample standard deviation with \<open>ddof = 1\<close>.
\<close>

definition trailing_mean :: "real list \<Rightarrow> nat \<Rightarrow> nat \<Rightarrow> real" where
  "trailing_mean xs w i = (\<Sum>j = Suc i - w..i. xs ! j) / real w"

definition trailing_std :: "real list \<Rightarrow> nat \<Rightarrow> nat \<Rightarrow> real" where
  "trailing_std xs w i =
     sqrt ((\<Sum>j = Suc i - w..i. (xs ! j - trailing_mean xs w i)\<^sup>2) / (real w - 1))"

text \<open>A resampled series of twelve seconds whose last ten rows carry the same two
  prices, and a shorter one of three rows.\<close>

definition flat_tail :: frame where
  "flat_tail =
     [(0, 100, 10), (1000, 102, 13)] @ map (\<lambda>k. (int k * 1000, 101, 11)) [2 ..< 12]"

definition three_rows :: frame where
  "three_rows = [(0, 100, 10), (1000, 102, 13), (2000, 101, 11)]"

text \<open>A run of the stationarity test that returns the p-value one half.\<close>

definition adf_half :: "real list \<Rightarrow> error + real" where
  "adf_half xs = Inr (1 / 2)"

text \<open>A tick store with one tick of each symbol, and the timestamp texts of its rows
  as pandas parses them.\<close>

definition db_example :: storage where
  "db_example =
     Ticks [(''2023-11-14T22:13:20'', ''btcusdt'', 100),
            (''2023-11-14T22:13:20.200000'', ''ethusdt'', 10)]"

definition parse_example :: "string \<Rightarrow> timestamp option" where
  "parse_example =
     map_of [(''2023-11-14T22:13:20'', 1700000000000),
             (''2023-11-14T22:13:20.200000'', 1700000000200)]"

text \<open>A tick store with three seconds of ticks, the last two seconds at the same prices,
  and the timestamp texts of its rows as pandas parses them.\<close>

definition db_flat :: storage where
  "db_flat =
     Ticks [(''1970-01-01T00:00:00'', ''btcusdt'', 100), (''1970-01-01T00:00:00'', ''ethusdt'', 10),
            (''1970-01-01T00:00:01'', ''btcusdt'', 101), (''1970-01-01T00:00:01'', ''ethusdt'', 11),
            (''1970-01-01T00:00:02'', ''btcusdt'', 101), (''1970-01-01T00:00:02'', ''ethusdt'', 11)]"

definition parse_seconds :: "string \<Rightarrow> timestamp option" where
  "parse_seconds =
     map_of [(''1970-01-01T00:00:00'', 0), (''1970-01-01T00:00:01'', 1000),
             (''1970-01-01T00:00:02'', 2000)]"

section \<open>The specification's reading of a stored timestamp\<close>

text \<open>
  These definitions are not taken from the code: they say what a stored timestamp text
  denotes, so that what \<open>normalize_trade_data\<close> stores can be compared with the UTC instant
  that the specification asks for.  \<open>iso8601_reading\<close> reads a text of the form
  \<^verbatim>\<open>YYYY-MM-DDTHH:MM:SS\<close>, optionally followed by a point and six digits of microseconds, into
  its seven fields, and rejects every other text and every field out of range;
  \<open>days_from_civil\<close> is the day number of a proleptic Gregorian date, counted from
  1970-01-01; \<open>utc_instant_of_text\<close> is the instant, in microseconds since the epoch, that
  the text denotes when it is read as a UTC time, as the specification requires of the
  stored timestamp.
\<close>

definition is_digit :: "char \<Rightarrow> bool" where
  "is_digit c = (c \<in> set ''0123456789'')"

definition digit_value :: "char \<Rightarrow> nat" where
  "digit_value c = of_char c - of_char CHR ''0''"

definition decimal :: "string \<Rightarrow> int" where
  "decimal cs = foldl (\<lambda>n c. 10 * n + int (digit_value c)) 0 cs"

definition iso8601_reading ::
    "string \<Rightarrow> (int \<times> int \<times> int \<times> int \<times> int \<times> int \<times> int) option" where
  "iso8601_reading stamp =
     (let y = decimal (take 4 stamp);
          m = decimal (take 2 (drop 5 stamp));
          d = decimal (take 2 (drop 8 stamp));
          hh = decimal (take 2 (drop 11 stamp));
          mm = decimal (take 2 (drop 14 stamp));
          ss = decimal (take 2 (drop 17 stamp));
          us = decimal (drop 20 stamp)
      in if (length stamp = 19 \<or> length stamp = 26 \<and> stamp ! 19 = CHR ''.'')
            \<and> stamp ! 4 = CHR ''-'' \<and> stamp ! 7 = CHR ''-'' \<and> stamp ! 10 = CHR ''T''
            \<and> stamp ! 13 = CHR '':'' \<and> stamp ! 16 = CHR '':''
            \<and> list_all is_digit
                 (take 4 stamp @ take 2 (drop 5 stamp) @ take 2 (drop 8 stamp) @ take 2 (drop 11 stamp)
                  @ take 2 (drop 14 stamp) @ take 2 (drop 17 stamp) @ drop 20 stamp)
            \<and> 1 \<le> m \<and> m \<le> 12 \<and> 1 \<le> d \<and> d \<le> 31 \<and> hh \<le> 23 \<and> mm \<le> 59 \<and> ss \<le> 59
         then Some (y, m, d, hh, mm, ss, us)
         else None)"

definition days_from_civil :: "int \<Rightarrow> int \<Rightarrow> int \<Rightarrow> int" where
  "days_from_civil y m d =
     (let y1 = (if m \<le> 2 then y - 1 else y);
          era = y1 div 400;
          yoe = y1 - era * 400;
          mp = (if 2 < m then m - 3 else m + 9);
          doy = (153 * mp + 2) div 5 + d - 1;
          doe = yoe * 365 + yoe div 4 - yoe div 100 + doy
      in era * 146097 + doe - 719468)"

definition utc_instant_of_text :: "string \<Rightarrow> int option" where
  "utc_instant_of_text stamp =
     (case iso8601_reading stamp of
        None \<Rightarrow> None
      | Some (y, m, d, hh, mm, ss, us) \<Rightarrow>
          Some ((days_from_civil y m d * 86400 + hh * 3600 + mm * 60 + ss) * 1000000 + us))"

section \<open>Properties\<close>

text \<open>
  C9.  For every real \<open>z\<close> and every threshold \<open>t\<close> the alert check reports a breach exactly
  when \<open>|z| > t\<close>, with strict inequality: \<open>|z| = t\<close> is no breach.  In particular
  \<open>evaluate(2.5, 2.0)\<close> and \<open>evaluate(-2.1, 2.0)\<close> are breaches and \<open>evaluate(1.9, 2.0)\<close>
  is none.
\<close>

theorem alert_breach_iff:
  "alert_breach (Fin z) t = (t < \<bar>z\<bar>)
   \<and> alert_breach (Fin t) \<bar>t\<bar> = False
   \<and> alert_breach (Fin (5 / 2)) 2 = True
   \<and> alert_breach (Fin (19 / 10)) 2 = False
   \<and> alert_breach (Fin (- (21 / 10))) 2 = True"
  by (simp add: alert_breach_def)

text \<open>
  C7.  Queried before the store is initialised or populated (no database file, no
  \<open>ticks\<close> table, or a table with zero rows), \<open>load_data\<close> returns the empty frame; it
  does not fail, whatever the timestamp parser is.  The run of the dashboard then stops
  with the warning that no data was found, and does not fail either.
\<close>

theorem load_data_not_yet_available:
  "load_data to_datetime NoFile = Inr empty_frame
   \<and> load_data to_datetime NoTable = Inr empty_frame
   \<and> load_data to_datetime (Ticks []) = Inr empty_frame
   \<and> is_empty empty_frame
   \<and> run_dashboard to_datetime adfuller resample cache NoFile w t = (NoDataFound, cache)
   \<and> run_dashboard to_datetime adfuller resample cache NoTable w t = (NoDataFound, cache)
   \<and> run_dashboard to_datetime adfuller resample cache (Ticks []) w t = (NoDataFound, cache)"
  by (simp add: empty_frame_def is_empty_def run_dashboard_def)

subsection \<open>Symbols\<close>

lemma select_symbol_filter:
  "name = ''btcusdt'' \<or> name = ''ethusdt'' \<Longrightarrow>
   select_symbol name (df\<lparr>rows := filter tracked (rows df)\<rparr>) = select_symbol name df"
  by (auto simp: select_symbol_def tracked_def intro!: arg_cong[where f="map _"] filter_cong)

lemma select_symbol_none:
  "\<forall>r \<in> set (rows df). fst (snd r) \<noteq> name \<Longrightarrow> select_symbol name df = []"
  by (auto simp: select_symbol_def filter_empty_conv)

lemma dedup_series_Nil: "dedup_series [] = []"
  by (simp add: dedup_series_def is_unique_def)

text \<open>
  C10.  The alignment looks only at the ticks whose symbol is exactly \<open>btcusdt\<close> or
  \<open>ethusdt\<close>: removing every other tick from the snapshot does not change the pair
  series, and a snapshot with no tick of these two symbols gives the empty pair series.
\<close>

theorem only_tracked_symbols:
  "get_pair_data df = get_pair_data (df\<lparr>rows := filter tracked (rows df)\<rparr>)
   \<and> ((\<forall>r \<in> set (rows df). \<not> tracked r) \<longrightarrow> get_pair_data df = [])"
proof
  show "get_pair_data df = get_pair_data (df\<lparr>rows := filter tracked (rows df)\<rparr>)"
  proof (cases "filter tracked (rows df) = []")
    case True
    then have none: "\<forall>r \<in> set (rows df). \<not> tracked r"
      by (simp add: filter_empty_conv)
    then have "select_symbol ''btcusdt'' df = []"
      by (intro select_symbol_none) (auto simp: tracked_def)
    then have "get_pair_data df = []"
      by (simp add: get_pair_data_def Let_def dedup_series_Nil)
    moreover have "get_pair_data (df\<lparr>rows := filter tracked (rows df)\<rparr>) = []"
      using True by (simp add: get_pair_data_def is_empty_def)
    ultimately show ?thesis by simp
  next
    case False
    then have "rows df \<noteq> []" by auto
    with False show ?thesis
      by (simp add: get_pair_data_def is_empty_def select_symbol_filter)
  qed
  show "(\<forall>r \<in> set (rows df). \<not> tracked r) \<longrightarrow> get_pair_data df = []"
  proof
    assume none: "\<forall>r \<in> set (rows df). \<not> tracked r"
    then have "select_symbol ''btcusdt'' df = []"
      by (intro select_symbol_none) (auto simp: tracked_def)
    then show "get_pair_data df = []"
      by (simp add: get_pair_data_def Let_def dedup_series_Nil)
  qed
qed

theorem only_tracked_symbols_witness:
  "get_pair_data \<lparr>columns = [''ts'', ''symbol'', ''price''],
                   rows = [(0, ''xrpusdt'', 1 / 2), (1000, ''BTCUSDT'', 43000)]\<rparr> = []"
proof -
  let ?df = "\<lparr>columns = [''ts'', ''symbol'', ''price''],
               rows = [(0, ''xrpusdt'', 1 / 2), (1000, ''BTCUSDT'', 43000 :: real)]\<rparr>"
  have "\<forall>r \<in> set (rows ?df). \<not> tracked r"
    by (simp add: tracked_def)
  with only_tracked_symbols [of ?df] show ?thesis
    by blast
qed

subsection \<open>Alignment\<close>

lemma length_ffill_col [simp]: "length (ffill_col p cs) = length cs"
  by (induction p cs rule: ffill_col.induct) auto

lemma ffill_col_nth_Some:
  "i < length cs \<Longrightarrow> cs ! i = Some v \<Longrightarrow> ffill_col p cs ! i = Some v"
proof (induction p cs arbitrary: i rule: ffill_col.induct)
  case (1 prev)
  then show ?case by simp
next
  case (2 prev cs)
  then show ?case by (cases i) auto
next
  case (3 prev u cs)
  then show ?case by (cases i) auto
qed

lemma ffill_col_nth_origin:
  "i < length cs \<Longrightarrow> ffill_col p cs ! i = Some v \<Longrightarrow> p = Some v \<or> (\<exists>j\<le>i. cs ! j = Some v)"
proof (induction p cs arbitrary: i rule: ffill_col.induct)
  case (1 prev)
  then show ?case by simp
next
  case (2 prev cs)
  show ?case
  proof (cases i)
    case 0
    with 2 show ?thesis by simp
  next
    case (Suc k)
    with 2 have "prev = Some v \<or> (\<exists>j\<le>k. cs ! j = Some v)" by simp
    then show ?thesis
    proof
      assume "prev = Some v" then show ?thesis by simp
    next
      assume "\<exists>j\<le>k. cs ! j = Some v"
      then obtain j where "j \<le> k" "cs ! j = Some v" by blast
      then have "Suc j \<le> i" "(None # cs) ! Suc j = Some v" using Suc by simp_all
      then show ?thesis by blast
    qed
  qed
next
  case (3 prev u cs)
  show ?case
  proof (cases i)
    case 0
    with 3 show ?thesis by auto
  next
    case (Suc k)
    with 3 have "Some u = Some v \<or> (\<exists>j\<le>k. cs ! j = Some v)" by simp
    then show ?thesis
    proof
      assume "Some u = Some v"
      then have "(Some u # cs) ! 0 = Some v" by simp
      then show ?thesis by blast
    next
      assume "\<exists>j\<le>k. cs ! j = Some v"
      then obtain j where "j \<le> k" "cs ! j = Some v" by blast
      then have "Suc j \<le> i" "(Some u # cs) ! Suc j = Some v" using Suc by simp_all
      then show ?thesis by blast
    qed
  qed
qed

lemma dropna_mem: "(t, x, y) \<in> set (dropna f) \<longleftrightarrow> (t, Some x, Some y) \<in> set f"
  by (induction f rule: dropna.induct) auto

lemma dropna_fst_subset: "fst ` set (dropna f) \<subseteq> fst ` set f"
  by (induction f rule: dropna.induct) auto

lemma distinct_dropna: "distinct (map fst f) \<Longrightarrow> distinct (map fst (dropna f))"
proof (induction f rule: dropna.induct)
  case 1
  then show ?case by simp
next
  case (2 t b e rs)
  then show ?case using dropna_fst_subset [of rs] by auto
qed auto

lemma map_fst_ffill: "map fst (ffill f) = map fst f"
  by (simp add: ffill_def)

lemma map_fst_concat_columns:
  "map fst (concat_columns a b) = union_index (map fst a) (map fst b)"
  by (simp add: concat_columns_def comp_def)

lemma ffill_concat_mem:
  assumes "(t, x, y) \<in> set (ffill (concat_columns a b))"
  shows "\<exists>i < length (union_index (map fst a) (map fst b)).
           union_index (map fst a) (map fst b) ! i = t
           \<and> ffill_col None (map (map_of a) (union_index (map fst a) (map fst b))) ! i = x
           \<and> ffill_col None (map (map_of b) (union_index (map fst a) (map fst b))) ! i = y"
  using assms
  by (auto simp: ffill_def concat_columns_def comp_def in_set_zip)

lemma sorted_union_index:
  "a \<noteq> b \<Longrightarrow> sorted (union_index a b)"
  by (simp add: union_index_def)

lemma column_origin:
  assumes s: "s = a \<or> s = b"
    and i: "i < length (union_index (map fst a) (map fst b))"
    and v: "ffill_col None (map (map_of s) (union_index (map fst a) (map fst b))) ! i = Some v"
  shows "\<exists>t' \<le> union_index (map fst a) (map fst b) ! i. (t', v) \<in> set s"
proof (cases "map fst a = map fst b")
  case True
  let ?idx = "union_index (map fst a) (map fst b)"
  from True s have idx: "?idx = map fst s"
    by (auto simp: union_index_def)
  with i have "?idx ! i \<in> fst ` set s"
    by (metis list.set_map nth_mem)
  then obtain u where u: "map_of s (?idx ! i) = Some u"
    by (metis map_of_eq_None_iff not_Some_eq)
  with i have "ffill_col None (map (map_of s) ?idx) ! i = Some u"
    by (intro ffill_col_nth_Some) simp_all
  with v have "u = v" by simp
  with u have "(?idx ! i, v) \<in> set s"
    by (simp add: map_of_SomeD)
  then show ?thesis by blast
next
  case False
  let ?idx = "union_index (map fst a) (map fst b)"
  from False have srt: "sorted ?idx"
    by (rule sorted_union_index)
  from i v have "\<exists>j\<le>i. map (map_of s) ?idx ! j = Some v"
    using ffill_col_nth_origin [of i "map (map_of s) ?idx" None v] by simp
  then obtain j where j: "j \<le> i" and "map (map_of s) ?idx ! j = Some v"
    by blast
  with i have "map_of s (?idx ! j) = Some v"
    by simp
  then have mem: "(?idx ! j, v) \<in> set s"
    by (rule map_of_SomeD)
  from srt j i have "?idx ! j \<le> ?idx ! i"
    by (simp add: sorted_nth_mono)
  with mem show ?thesis by blast
qed

lemma aligned_row_origin:
  assumes "(t, x, y) \<in> set (dropna (ffill (concat_columns a b)))"
  shows "(\<exists>t' \<le> t. (t', x) \<in> set a) \<and> (\<exists>t' \<le> t. (t', y) \<in> set b)"
proof -
  let ?idx = "union_index (map fst a) (map fst b)"
  from assms have "(t, Some x, Some y) \<in> set (ffill (concat_columns a b))"
    by (simp add: dropna_mem)
  then obtain i where i: "i < length ?idx" and t: "?idx ! i = t"
    and x: "ffill_col None (map (map_of a) ?idx) ! i = Some x"
    and y: "ffill_col None (map (map_of b) ?idx) ! i = Some y"
    using ffill_concat_mem by blast
  from column_origin [of a a b i x] i x t have "\<exists>t' \<le> t. (t', x) \<in> set a" by simp
  moreover from column_origin [of b a b i y] i y t have "\<exists>t' \<le> t. (t', y) \<in> set b" by simp
  ultimately show ?thesis by simp
qed

lemma set_fst_groupby_mean: "fst ` set (groupby_mean s) = fst ` set s"
  by (simp add: groupby_mean_def image_image)

lemma set_fst_dedup_series: "fst ` set (dedup_series s) = fst ` set s"
  by (simp add: dedup_series_def set_fst_groupby_mean)

lemma first_ts_le: "(t, v) \<in> set s \<Longrightarrow> first_ts s \<le> t"
  unfolding first_ts_def by (intro Min_le) (auto intro: rev_image_eqI)

lemma first_ts_dedup_series: "first_ts (dedup_series s) = first_ts s"
  using set_fst_dedup_series [of s] by (simp add: first_ts_def)

lemma get_pair_data_rows:
  assumes "r \<in> set (get_pair_data df)"
  shows "r \<in> set (dropna (ffill (concat_columns
            (dedup_series (select_symbol ''btcusdt'' df))
            (dedup_series (select_symbol ''ethusdt'' df)))))"
  using assms by (auto simp: get_pair_data_def Let_def split: if_splits)

text \<open>
  C6.  When the first observation of one symbol is strictly later than the first
  observation of the other, the pair series has no row before the later of the two.
  Every row of the pair series has a price for both symbols, and each is a price that
  the symbol reported (after averaging duplicates) at the row's timestamp or before it.
\<close>

theorem no_leading_gap:
  "(first_ts (select_symbol ''ethusdt'' df) < first_ts (select_symbol ''btcusdt'' df) \<longrightarrow>
      (\<forall>(t, b, e) \<in> set (get_pair_data df). first_ts (select_symbol ''btcusdt'' df) \<le> t))
   \<and> (first_ts (select_symbol ''btcusdt'' df) < first_ts (select_symbol ''ethusdt'' df) \<longrightarrow>
      (\<forall>(t, b, e) \<in> set (get_pair_data df). first_ts (select_symbol ''ethusdt'' df) \<le> t))
   \<and> (\<forall>(t, b, e) \<in> set (get_pair_data df).
        (\<exists>t' \<le> t. (t', b) \<in> set (dedup_series (select_symbol ''btcusdt'' df)))
        \<and> (\<exists>t' \<le> t. (t', e) \<in> set (dedup_series (select_symbol ''ethusdt'' df))))"
proof -
  let ?btc = "dedup_series (select_symbol ''btcusdt'' df)"
  let ?eth = "dedup_series (select_symbol ''ethusdt'' df)"
  have origin: "(\<exists>t' \<le> t. (t', b) \<in> set ?btc) \<and> (\<exists>t' \<le> t. (t', e) \<in> set ?eth)"
    if "(t, b, e) \<in> set (get_pair_data df)" for t b e
    using that by (intro aligned_row_origin get_pair_data_rows)
  have btc: "first_ts (select_symbol ''btcusdt'' df) \<le> t"
    if "(t, b, e) \<in> set (get_pair_data df)" for t b e
  proof -
    from origin [OF that] obtain t' where "t' \<le> t" "(t', b) \<in> set ?btc" by blast
    then have "first_ts ?btc \<le> t" using first_ts_le [of t' b ?btc] by simp
    then show ?thesis by (simp add: first_ts_dedup_series)
  qed
  have eth: "first_ts (select_symbol ''ethusdt'' df) \<le> t"
    if "(t, b, e) \<in> set (get_pair_data df)" for t b e
  proof -
    from origin [OF that] obtain t' where "t' \<le> t" "(t', e) \<in> set ?eth" by blast
    then have "first_ts ?eth \<le> t" using first_ts_le [of t' e ?eth] by simp
    then show ?thesis by (simp add: first_ts_dedup_series)
  qed
  from origin btc eth show ?thesis by blast
qed

lemma get_pair_data_example:
  "get_pair_data ticks_example = [(1000, 101, 10), (2000, 101, 11), (130000, 104, 11)]"
  by (simp add: ticks_example_def get_pair_data_def is_empty_def select_symbol_def
      dedup_series_def is_unique_def groupby_mean_def mean_def concat_columns_def
      union_index_def ffill_def)

lemma first_ts_example:
  "first_ts (select_symbol ''btcusdt'' ticks_example) = 1000"
  "first_ts (select_symbol ''ethusdt'' ticks_example) = 0"
  by (simp_all add: ticks_example_def select_symbol_def first_ts_def)

theorem no_leading_gap_witness:
  "first_ts (select_symbol ''ethusdt'' ticks_example)
     < first_ts (select_symbol ''btcusdt'' ticks_example)
   \<and> get_pair_data ticks_example \<noteq> []
   \<and> list_all (\<lambda>(t, b, e). first_ts (select_symbol ''btcusdt'' ticks_example) \<le> t)
       (get_pair_data ticks_example)"
proof -
  have lt: "first_ts (select_symbol ''ethusdt'' ticks_example)
     < first_ts (select_symbol ''btcusdt'' ticks_example)"
    by (simp add: first_ts_example)
  with no_leading_gap [of ticks_example]
  have "\<forall>(t, b, e) \<in> set (get_pair_data ticks_example).
          first_ts (select_symbol ''btcusdt'' ticks_example) \<le> t"
    by blast
  then have "list_all (\<lambda>(t, b, e). first_ts (select_symbol ''btcusdt'' ticks_example) \<le> t)
       (get_pair_data ticks_example)"
    by (simp add: list_all_iff)
  with lt show ?thesis
    by (simp add: get_pair_data_example)
qed

lemma filter_key_distinct:
  "distinct ks \<Longrightarrow> t \<in> set ks \<Longrightarrow> filter (\<lambda>k. k = t) ks = [t]"
  by (induction ks) (auto simp: filter_empty_conv)

lemma filter_fst_length_le_1:
  "distinct (map fst xs) \<Longrightarrow> length (filter (\<lambda>r. fst r = t) xs) \<le> 1"
proof (induction xs)
  case Nil
  then show ?case by simp
next
  case (Cons x xs)
  show ?case
  proof (cases "fst x = t")
    case True
    with Cons.prems have "\<forall>r \<in> set xs. fst r \<noteq> t"
      by (auto simp: image_iff)
    then have "filter (\<lambda>r. fst r = t) xs = []"
      by (simp add: filter_empty_conv)
    with True show ?thesis by simp
  next
    case False
    with Cons show ?thesis by simp
  qed
qed

lemma two_at_key_not_unique:
  "2 \<le> length (filter (\<lambda>r. fst r = t) s) \<Longrightarrow> \<not> is_unique s"
  using filter_fst_length_le_1 [of s t] by (auto simp: is_unique_def)

lemma groupby_mean_at:
  assumes "t \<in> fst ` set s"
  shows "filter (\<lambda>r. fst r = t) (groupby_mean s)
           = [(t, mean (map snd (filter (\<lambda>r. fst r = t) s)))]"
proof -
  let ?ks = "sort (remdups (map fst s))"
  let ?f = "\<lambda>k. (k, mean (map snd (filter (\<lambda>r. fst r = k) s)))"
  have "filter (\<lambda>r. fst r = t) (map ?f ?ks) = map ?f (filter (\<lambda>k. k = t) ?ks)"
    by (simp add: filter_map comp_def)
  also have "filter (\<lambda>k. k = t) ?ks = [t]"
    using assms by (intro filter_key_distinct) simp_all
  finally show ?thesis
    by (simp add: groupby_mean_def)
qed

lemma distinct_fst_dedup_series: "distinct (map fst (dedup_series s))"
  by (simp add: dedup_series_def is_unique_def groupby_mean_def comp_def)

lemma distinct_union_index:
  "distinct a \<Longrightarrow> distinct (union_index a b)"
  by (auto simp: union_index_def)

lemma map_of_filter_key:
  "filter (\<lambda>r. fst r = t) xs = (t, m) # rest \<Longrightarrow> map_of xs t = Some m"
proof (induction xs)
  case Nil
  then show ?case by simp
next
  case (Cons x xs)
  then show ?case by (cases x) (auto split: if_splits)
qed

lemma aligned_row_own_value:
  assumes "(t, x, y) \<in> set (dropna (ffill (concat_columns a b)))"
  shows "(map_of a t = Some m \<longrightarrow> x = m) \<and> (map_of b t = Some m \<longrightarrow> y = m)"
proof -
  let ?idx = "union_index (map fst a) (map fst b)"
  from assms have "(t, Some x, Some y) \<in> set (ffill (concat_columns a b))"
    by (simp add: dropna_mem)
  then obtain i where i: "i < length ?idx" and t: "?idx ! i = t"
    and x: "ffill_col None (map (map_of a) ?idx) ! i = Some x"
    and y: "ffill_col None (map (map_of b) ?idx) ! i = Some y"
    using ffill_concat_mem by blast
  have "x = m" if "map_of a t = Some m"
    using ffill_col_nth_Some [of i "map (map_of a) ?idx" m None] i t x that by simp
  moreover have "y = m" if "map_of b t = Some m"
    using ffill_col_nth_Some [of i "map (map_of b) ?idx" m None] i t y that by simp
  ultimately show ?thesis by blast
qed

lemma distinct_fst_get_pair_data: "distinct (map fst (get_pair_data df))"
proof -
  let ?btc = "dedup_series (select_symbol ''btcusdt'' df)"
  let ?eth = "dedup_series (select_symbol ''ethusdt'' df)"
  have "distinct (map fst (ffill (concat_columns ?btc ?eth)))"
    by (simp add: map_fst_ffill map_fst_concat_columns distinct_union_index
        distinct_fst_dedup_series)
  then have "distinct (map fst (dropna (ffill (concat_columns ?btc ?eth))))"
    by (rule distinct_dropna)
  then show ?thesis
    by (simp add: get_pair_data_def Let_def)
qed

lemma dedup_series_at:
  assumes "2 \<le> length (filter (\<lambda>r. fst r = t) s)"
  shows "filter (\<lambda>r. fst r = t) (dedup_series s)
           = [(t, mean (map snd (filter (\<lambda>r. fst r = t) s)))]"
proof -
  from assms have "\<not> is_unique s"
    by (rule two_at_key_not_unique)
  moreover from assms have "filter (\<lambda>r. fst r = t) s \<noteq> []"
    by auto
  then have "t \<in> fst ` set s"
    by (auto simp: filter_empty_conv)
  ultimately show ?thesis
    by (simp add: dedup_series_def groupby_mean_at)
qed

text \<open>
  C2.  When a symbol has two or more ticks at one timestamp \<open>t\<close>, with prices \<open>ps\<close>, its
  series after deduplication has exactly one point at \<open>t\<close>, and the price there is the
  arithmetic mean of \<open>ps\<close>; for two ticks that is \<open>(p1 + p2) / 2\<close>.  The pair series has at
  most one row at \<open>t\<close>, and that row carries the mean as the symbol's price.
\<close>

theorem duplicates_collapse_to_mean:
  assumes ps: "ps = map snd (filter (\<lambda>r. fst r = t) (select_symbol name df))"
    and two: "2 \<le> length ps"
  shows "filter (\<lambda>r. fst r = t) (dedup_series (select_symbol name df))
           = [(t, sum_list ps / real (length ps))]
         \<and> length (filter (\<lambda>r. fst r = t) (get_pair_data df)) \<le> 1
         \<and> (name = ''btcusdt'' \<longrightarrow>
              (\<forall>(t', b, e) \<in> set (get_pair_data df).
                 t' = t \<longrightarrow> b = sum_list ps / real (length ps)))
         \<and> (name = ''ethusdt'' \<longrightarrow>
              (\<forall>(t', b, e) \<in> set (get_pair_data df).
                 t' = t \<longrightarrow> e = sum_list ps / real (length ps)))"
proof -
  let ?m = "sum_list ps / real (length ps)"
  from two have "2 \<le> length (filter (\<lambda>r. fst r = t) (select_symbol name df))"
    by (simp add: ps)
  then have point: "filter (\<lambda>r. fst r = t) (dedup_series (select_symbol name df)) = [(t, ?m)]"
    by (simp add: dedup_series_at ps mean_def)
  then have look: "map_of (dedup_series (select_symbol name df)) t = Some ?m"
    by (rule map_of_filter_key)
  have single: "length (filter (\<lambda>r. fst r = t) (get_pair_data df)) \<le> 1"
    by (intro filter_fst_length_le_1 distinct_fst_get_pair_data)
  have btc: "b = ?m" if "name = ''btcusdt''" "(t, b, e) \<in> set (get_pair_data df)" for b e
    using aligned_row_own_value [OF get_pair_data_rows [OF that(2)], of ?m] look that(1)
    by simp
  have eth: "e = ?m" if "name = ''ethusdt''" "(t, b, e) \<in> set (get_pair_data df)" for b e
    using aligned_row_own_value [OF get_pair_data_rows [OF that(2)], of ?m] look that(1)
    by simp
  from point single btc eth show ?thesis
    by blast
qed

theorem duplicates_collapse_to_mean_witness:
  "filter (\<lambda>r. fst r = 1000) (dedup_series (select_symbol ''btcusdt'' ticks_example))
     = [(1000, (100 + 102) / 2)]
   \<and> filter (\<lambda>r. fst r = 1000) (get_pair_data ticks_example) = [(1000, (100 + 102) / 2, 10)]"
proof -
  have ps: "[100, 102] = map snd (filter (\<lambda>r. fst r = 1000) (select_symbol ''btcusdt'' ticks_example))"
    by (simp add: ticks_example_def select_symbol_def)
  have two: "2 \<le> length [100, 102 :: real]"
    by simp
  from duplicates_collapse_to_mean [OF ps two]
  have "filter (\<lambda>r. fst r = 1000) (dedup_series (select_symbol ''btcusdt'' ticks_example))
     = [(1000, sum_list [100, 102] / real (length [100, 102 :: real]))]"
    by blast
  then show ?thesis
    by (simp add: get_pair_data_example)
qed

subsection \<open>Resampling\<close>

lemma get_pair_data_gap:
  "get_pair_data ticks_gap = [(200, 100, 10), (2500, 101, 10), (2700, 101, 11)]"
  by (simp add: ticks_gap_def get_pair_data_def is_empty_def select_symbol_def
      dedup_series_def is_unique_def concat_columns_def union_index_def ffill_def)

lemma resampled_gap:
  "resampled 1000 [(200, 100, 10), (2500, 101, 10), (2700, 101, 11)]
     = [(0, 100, 10), (2000, 101, 11)]"
  by (simp add: resampled_def resample_last_def bin_labels_def bucket_def Let_def upt_conv_Cons)

text \<open>
  C8, as stated, fails: the resampled timestamps are not evenly spaced when a bucket is
  empty.  With one-second buckets and no tick between 00:00:00.200 and 00:00:02.500, the
  bucket of second 1 is dropped and the rows of second 0 and second 2 are consecutive.
\<close>

theorem resampled_not_evenly_spaced:
  "map fst (resampled 1000 (get_pair_data ticks_gap)) = [0, 2000]"
  by (simp add: get_pair_data_gap resampled_gap)

lemma sorted_wrt_dropna:
  "sorted_wrt (\<lambda>x y. fst x < fst y) f \<Longrightarrow> sorted_wrt (\<lambda>x y. fst x < fst y) (dropna f)"
proof (induction f rule: dropna.induct)
  case 1
  then show ?case by simp
next
  case (2 t b e rs)
  then show ?case using dropna_fst_subset [of rs] by fastforce
qed auto

lemma sorted_wrt_bin_labels:
  assumes "0 < w"
  shows "sorted_wrt (<) (bin_labels w ts)"
proof -
  have "sorted_wrt (\<lambda>i j. lo + int i * w < lo + int j * w) [0 ..< n]" for lo n
    using assms by (intro sorted_wrt_mono_rel [OF _ sorted_wrt_upt]) simp
  then show ?thesis
    unfolding bin_labels_def Let_def sorted_wrt_map by blast
qed

lemma dvd_bin_labels:
  "b \<in> set (bin_labels w ts) \<Longrightarrow> w dvd b"
  by (auto simp: bin_labels_def Let_def bucket_def)

lemma map_fst_resample_last:
  "df \<noteq> [] \<Longrightarrow> map fst (resample_last w df) = bin_labels w (map fst df)"
  by (auto simp: resample_last_def Let_def comp_def intro!: map_idI)

lemma sorted_wrt_resampled:
  assumes "0 < w"
  shows "sorted_wrt (<) (map fst (resampled w df))"
proof (cases "df = []")
  case True
  then show ?thesis by (simp add: resampled_def resample_last_def)
next
  case False
  with assms have "sorted_wrt (<) (map fst (resample_last w df))"
    by (simp add: map_fst_resample_last sorted_wrt_bin_labels)
  then have "sorted_wrt (\<lambda>x y. fst x < fst y) (resample_last w df)"
    by (simp add: sorted_wrt_map)
  then have "sorted_wrt (\<lambda>x y. fst x < fst y) (dropna (resample_last w df))"
    by (rule sorted_wrt_dropna)
  then show ?thesis
    by (simp add: resampled_def sorted_wrt_map)
qed

lemma dvd_resampled:
  assumes "r \<in> set (resampled w df)"
  shows "w dvd fst r"
proof (cases "df = []")
  case True
  with assms show ?thesis by (simp add: resampled_def resample_last_def)
next
  case False
  from assms have "fst r \<in> fst ` set (resample_last w df)"
    using dropna_fst_subset [of "resample_last w df"] by (auto simp: resampled_def)
  also have "fst ` set (resample_last w df) = set (bin_labels w (map fst df))"
    using map_fst_resample_last [OF False, of w] by (metis list.set_map)
  finally show ?thesis
    by (rule dvd_bin_labels)
qed

text \<open>
  C8, amended.  For every pair series and every positive bucket width, the resampled
  series has strictly increasing timestamps, every timestamp is a bucket edge (a multiple
  of the width), and consecutive timestamps differ by a positive whole multiple of the
  width.
\<close>

theorem resampled_timestamps:
  assumes "0 < w"
  shows "sorted_wrt (<) (map fst (resampled w pair_df))
         \<and> (\<forall>r \<in> set (resampled w pair_df). w dvd fst r)
         \<and> (\<forall>i. Suc i < length (resampled w pair_df) \<longrightarrow>
               (\<exists>k\<ge>1. fst (resampled w pair_df ! Suc i) - fst (resampled w pair_df ! i) = k * w))"
proof -
  let ?res = "resampled w pair_df"
  have srt: "sorted_wrt (<) (map fst ?res)"
    using assms by (rule sorted_wrt_resampled)
  have dvd: "\<forall>r \<in> set ?res. w dvd fst r"
    by (simp add: dvd_resampled)
  have step: "\<exists>k\<ge>1. fst (?res ! Suc i) - fst (?res ! i) = k * w" if i: "Suc i < length ?res" for i
  proof -
    from i have "map fst ?res ! i < map fst ?res ! Suc i"
      using sorted_wrt_nth_less [OF srt, of i "Suc i"] by simp
    with i have lt: "fst (?res ! i) < fst (?res ! Suc i)"
      by simp
    from dvd i have "w dvd fst (?res ! Suc i)" "w dvd fst (?res ! i)"
      by simp_all
    then have "w dvd fst (?res ! Suc i) - fst (?res ! i)"
      by (rule dvd_diff)
    then obtain k where k: "fst (?res ! Suc i) - fst (?res ! i) = w * k"
      by (auto simp: dvd_def)
    with lt assms have "0 < w * k" by simp
    with assms have "0 < k"
      by (simp add: zero_less_mult_iff)
    with k show ?thesis
      by (intro exI [of _ k]) (simp add: mult.commute)
  qed
  from srt dvd step show ?thesis by blast
qed

theorem resampled_timestamps_witness:
  "Suc 0 < length (resampled 1000 (get_pair_data ticks_gap))
   \<and> (\<exists>k\<ge>1. fst (resampled 1000 (get_pair_data ticks_gap) ! Suc 0)
              - fst (resampled 1000 (get_pair_data ticks_gap) ! 0) = k * 1000)"
proof -
  have len: "Suc 0 < length (resampled 1000 (get_pair_data ticks_gap))"
    by (simp add: get_pair_data_gap resampled_gap)
  have pos: "(0::int) < 1000" by simp
  from resampled_timestamps [OF pos, of "get_pair_data ticks_gap"] len
  show ?thesis by blast
qed

subsection \<open>Rolling statistics\<close>

lemma length_rolling [simp]: "length (rolling w f xs) = length xs"
  by (simp add: rolling_def)

lemma rolling_nth:
  "i < length xs \<Longrightarrow> rolling w f xs ! i = (if Suc i < w then NaN else f (window w i xs))"
  by (simp add: rolling_def)

lemma length_z_score_of [simp]: "length (z_score_of w xs) = length xs"
  by (simp add: z_score_of_def)

lemma z_score_of_nth:
  assumes "i < length xs"
  shows "z_score_of w xs ! i =
           (if Suc i < w then NaN
            else fdiv (fsub (Fin (xs ! i)) (win_mean (window w i xs))) (win_std (window w i xs)))"
  using assms by (simp add: z_score_of_def rolling_nth)

lemma length_window:
  "w \<le> Suc i \<Longrightarrow> i < length xs \<Longrightarrow> length (window w i xs) = w"
  by (simp add: window_def)

lemma sum_list_window:
  assumes "w \<le> Suc i" and "i < length xs"
  shows "sum_list (map g (window w i xs)) = (\<Sum>j = Suc i - w..i. g (xs ! j))"
proof -
  let ?k = "Suc i - w"
  have len: "length (window w i xs) = w"
    using assms by (rule length_window)
  have nth: "window w i xs ! n = xs ! (?k + n)" if "n < w" for n
    using that assms by (simp add: window_def)
  have "sum_list (map g (window w i xs)) = (\<Sum>n = 0..<w. g (window w i xs ! n))"
    using len by (simp add: sum_list_sum_nth)
  also have "\<dots> = (\<Sum>n = 0..<w. g (xs ! (?k + n)))"
    by (intro sum.cong) (simp_all add: nth)
  also have "\<dots> = (\<Sum>j = ?k..<?k + w. g (xs ! j))"
    using sum.shift_bounds_nat_ivl [of "\<lambda>j. g (xs ! j)" 0 ?k w] by (simp add: add.commute)
  also have "{?k..<?k + w} = {?k..i}"
    using assms by auto
  finally show ?thesis .
qed

lemma mean_window:
  assumes "w \<le> Suc i" and "i < length xs"
  shows "mean (window w i xs) = trailing_mean xs w i"
  using sum_list_window [OF assms, of "\<lambda>x. x"] length_window [OF assms]
  by (simp add: mean_def trailing_mean_def)

lemma sqrt_sample_var_window:
  assumes "w \<le> Suc i" and "i < length xs"
  shows "sqrt (sample_var (window w i xs)) = trailing_std xs w i"
  using sum_list_window [OF assms, of "\<lambda>x. (x - trailing_mean xs w i)\<^sup>2"]
    length_window [OF assms] mean_window [OF assms]
  by (simp add: sample_var_def trailing_std_def)

lemma z_score_of_defined:
  assumes "w \<le> Suc i" and "i < length xs" and "2 \<le> w"
  shows "z_score_of w xs ! i
           = fdiv (Fin (xs ! i - trailing_mean xs w i)) (Fin (trailing_std xs w i))"
proof -
  have len: "length (window w i xs) = w"
    using assms(1,2) by (rule length_window)
  with assms(3) have "window w i xs \<noteq> []" "\<not> length (window w i xs) \<le> 1"
    by auto
  then show ?thesis
    using assms
    by (simp add: z_score_of_nth win_mean_def win_std_def mean_window sqrt_sample_var_window)
qed

lemma z_score_of_small_window:
  assumes "w \<le> Suc i" and "i < length xs" and "w < 2"
  shows "z_score_of w xs ! i = NaN"
proof -
  have len: "length (window w i xs) = w"
    using assms(1,2) by (rule length_window)
  with assms(3) have "win_std (window w i xs) = NaN"
    by (simp add: win_std_def)
  then show ?thesis
    using assms by (simp add: z_score_of_nth win_mean_def)
qed

lemma trailing_std_zero_iff:
  assumes "2 \<le> w"
  shows "trailing_std xs w i = 0 \<longleftrightarrow> (\<forall>j \<in> {Suc i - w..i}. xs ! j = trailing_mean xs w i)"
proof -
  from assms have "real w - 1 \<noteq> 0" by simp
  then have "trailing_std xs w i = 0
      \<longleftrightarrow> (\<Sum>j = Suc i - w..i. (xs ! j - trailing_mean xs w i)\<^sup>2) = 0"
    by (simp add: trailing_std_def)
  also have "\<dots> \<longleftrightarrow> (\<forall>j \<in> {Suc i - w..i}. (xs ! j - trailing_mean xs w i)\<^sup>2 = 0)"
    by (intro sum_nonneg_eq_0_iff) simp_all
  finally show ?thesis by simp
qed

lemma z_score_of_nan_iff:
  assumes "i < length xs"
  shows "z_score_of w xs ! i = NaN \<longleftrightarrow> Suc i < w \<or> w < 2 \<or> trailing_std xs w i = 0"
proof (cases "Suc i < w")
  case True
  with assms show ?thesis by (simp add: z_score_of_nth)
next
  case False
  then have w: "w \<le> Suc i" by simp
  show ?thesis
  proof (cases "w < 2")
    case True
    with w assms show ?thesis by (simp add: z_score_of_small_window)
  next
    case False
    then have two: "2 \<le> w" by simp
    have z: "z_score_of w xs ! i
           = fdiv (Fin (xs ! i - trailing_mean xs w i)) (Fin (trailing_std xs w i))"
      using w assms two by (rule z_score_of_defined)
    show ?thesis
    proof (cases "trailing_std xs w i = 0")
      case True
      with two have "\<forall>j \<in> {Suc i - w..i}. xs ! j = trailing_mean xs w i"
        by (simp add: trailing_std_zero_iff)
      moreover from two have "i \<in> {Suc i - w..i}"
        by auto
      ultimately have "xs ! i = trailing_mean xs w i"
        by blast
      with True z show ?thesis by simp
    next
      case False
      with z \<open>\<not> Suc i < w\<close> \<open>\<not> w < 2\<close> show ?thesis by simp
    qed
  qed
qed

lemma z_score_of_finite_or_nan:
  assumes "i < length xs"
  shows "z_score_of w xs ! i = NaN \<or> (\<exists>r. z_score_of w xs ! i = Fin r)"
proof (cases "z_score_of w xs ! i = NaN")
  case True
  then show ?thesis by simp
next
  case False
  with assms have w: "w \<le> Suc i" and two: "2 \<le> w" and sd: "trailing_std xs w i \<noteq> 0"
    by (simp_all add: z_score_of_nan_iff)
  from z_score_of_defined [OF w assms two] sd show ?thesis
    by simp
qed

lemma trailing_mean_flat:
  assumes "w \<le> Suc i" and "0 < w" and "\<forall>j \<in> {Suc i - w..i}. xs ! j = c"
  shows "trailing_mean xs w i = c"
proof -
  have "(\<Sum>j = Suc i - w..i. xs ! j) = (\<Sum>j = Suc i - w..i. c)"
    using assms(3) by (intro sum.cong) simp_all
  also have "\<dots> = real w * c"
    using assms(1) by simp
  finally show ?thesis
    using assms(2) by (simp add: trailing_mean_def)
qed

lemma z_score_of_flat_window:
  assumes w: "w \<le> Suc i" and i: "i < length xs" and flat: "\<forall>j \<in> {Suc i - w..i}. xs ! j = c"
  shows "z_score_of w xs ! i = NaN"
proof (cases "w < 2")
  case True
  with w i show ?thesis by (rule z_score_of_small_window)
next
  case False
  then have two: "2 \<le> w" by simp
  then have "trailing_mean xs w i = c"
    using w flat by (intro trailing_mean_flat) simp_all
  with flat two have "trailing_std xs w i = 0"
    by (simp add: trailing_std_zero_iff)
  with i show ?thesis
    by (simp add: z_score_of_nan_iff)
qed

lemma length_spread_of [simp]: "length (spread_of df) = length df"
  by (simp add: spread_of_def)

lemma spread_of_nth:
  "j < length df \<Longrightarrow>
   spread_of df ! j = snd (snd (df ! j)) - hedge_ratio_of df * fst (snd (df ! j))"
  by (simp add: spread_of_def case_prod_beta)

lemma trailing_std_flat:
  assumes "w \<le> Suc i" and "2 \<le> w" and "\<forall>j \<in> {Suc i - w..i}. xs ! j = c"
  shows "trailing_std xs w i = 0"
proof -
  have "trailing_mean xs w i = c"
    using assms by (intro trailing_mean_flat) simp_all
  with assms(2,3) show ?thesis
    by (simp add: trailing_std_zero_iff)
qed

lemma length_flat_tail: "length flat_tail = 12"
  by (simp add: flat_tail_def)

lemma spread_of_flat_tail:
  assumes "j \<in> {2..11}"
  shows "spread_of flat_tail ! j = 11 - hedge_ratio_of flat_tail * 101"
proof -
  from assms have "j \<in> set [2 ..< 12]"
    by (simp del: upt_rec_numeral)
  then have "j = 2 \<or> j = 3 \<or> j = 4 \<or> j = 5 \<or> j = 6 \<or> j = 7 \<or> j = 8 \<or> j = 9 \<or> j = 10 \<or> j = 11"
    by simp
  moreover have "flat_tail ! 2 = (2000, 101, 11)" "flat_tail ! 3 = (3000, 101, 11)"
    "flat_tail ! 4 = (4000, 101, 11)" "flat_tail ! 5 = (5000, 101, 11)"
    "flat_tail ! 6 = (6000, 101, 11)" "flat_tail ! 7 = (7000, 101, 11)"
    "flat_tail ! 8 = (8000, 101, 11)" "flat_tail ! 9 = (9000, 101, 11)"
    "flat_tail ! 10 = (10000, 101, 11)" "flat_tail ! 11 = (11000, 101, 11)"
    by (simp_all add: flat_tail_def)
  ultimately show ?thesis
    by (auto simp: spread_of_nth length_flat_tail)
qed

lemma z_score_flat_tail: "z_score_of 10 (spread_of flat_tail) ! 11 = NaN"
proof (rule z_score_of_flat_window [where c = "11 - hedge_ratio_of flat_tail * 101"])
  show "10 \<le> Suc 11" by simp
  show "11 < length (spread_of flat_tail)"
    by (simp add: length_flat_tail)
  have "{Suc 11 - 10..11} = {2..11::nat}" by simp
  then show "\<forall>j \<in> {Suc 11 - 10..11}. spread_of flat_tail ! j = 11 - hedge_ratio_of flat_tail * 101"
    using spread_of_flat_tail by blast
qed

lemma last_z_score_of:
  assumes "xs \<noteq> []"
  shows "last (z_score_of w xs) = z_score_of w xs ! (length xs - 1)"
proof -
  from assms have "z_score_of w xs \<noteq> []"
    by (metis length_0_conv length_z_score_of)
  then show ?thesis
    by (simp add: last_conv_nth)
qed

lemma last_z_score_flat_tail: "last (z_score_of 10 (spread_of flat_tail)) = NaN"
proof -
  have "length (spread_of flat_tail) = 12"
    by (simp add: length_flat_tail)
  moreover from this have "spread_of flat_tail \<noteq> []"
    by (metis length_0_conv zero_neq_numeral)
  ultimately show ?thesis
    using z_score_flat_tail by (simp add: last_z_score_of)
qed

text \<open>
  C1, as stated, fails: the z-score is not undefined exactly for the first \<open>w - 1\<close>
  indices.  With \<open>w = 10\<close> and a series whose rows 2 to 11 carry the same prices, the
  z-score at index 11 is NaN although \<open>11 \<ge> w - 1\<close>: the window has standard deviation
  zero and the quotient is \<open>0 / 0\<close>.
\<close>

theorem z_score_nan_after_prefix:
  "length flat_tail = 12 \<and> z_score_of 10 (spread_of flat_tail) ! 11 = NaN"
  by (simp add: z_score_flat_tail length_flat_tail)

text \<open>
  C1, amended.  For every resampled pair series, every window size \<open>w\<close> and every index
  \<open>i\<close> of the series: the z-score at \<open>i\<close> is NaN for the first \<open>w - 1\<close> indices; from index
  \<open>w - 1\<close> on (with \<open>w \<ge> 2\<close>) it is the float quotient of \<open>spread[i]\<close> minus the mean of the
  spread over the indices \<open>i - w + 1 .. i\<close> by the sample standard deviation (\<open>ddof = 1\<close>)
  over the same indices; and it is NaN exactly at the first \<open>w - 1\<close> indices and at the
  indices whose window has standard deviation zero (or when \<open>w < 2\<close>).  So for \<open>w = 50\<close>
  the indices 0 to 48 are NaN and index 49 is computed from \<open>spread[0..49]\<close>, defined
  unless these fifty values are all equal.
\<close>

theorem rolling_z_score:
  assumes "i < length df"
  shows "(Suc i < w \<longrightarrow> z_score_of w (spread_of df) ! i = NaN)
         \<and> (w \<le> Suc i \<and> 2 \<le> w \<longrightarrow>
              z_score_of w (spread_of df) ! i
                = fdiv (Fin (spread_of df ! i - trailing_mean (spread_of df) w i))
                       (Fin (trailing_std (spread_of df) w i)))
         \<and> (z_score_of w (spread_of df) ! i = NaN
              \<longleftrightarrow> Suc i < w \<or> w < 2 \<or> trailing_std (spread_of df) w i = 0)"
proof -
  from assms have i: "i < length (spread_of df)"
    by simp
  have "z_score_of w (spread_of df) ! i = NaN" if "Suc i < w"
    using that i by (simp add: z_score_of_nan_iff)
  moreover have "z_score_of w (spread_of df) ! i
                = fdiv (Fin (spread_of df ! i - trailing_mean (spread_of df) w i))
                       (Fin (trailing_std (spread_of df) w i))" if "w \<le> Suc i" "2 \<le> w"
    using that(1) i that(2) by (rule z_score_of_defined)
  moreover note z_score_of_nan_iff [OF i, of w]
  ultimately show ?thesis by blast
qed

theorem rolling_z_score_witness:
  "z_score_of 2 (spread_of three_rows) ! 0 = NaN
   \<and> z_score_of 2 (spread_of three_rows) ! 1
       = fdiv (Fin (spread_of three_rows ! 1 - trailing_mean (spread_of three_rows) 2 1))
              (Fin (trailing_std (spread_of three_rows) 2 1))"
proof -
  have "0 < length three_rows" "1 < length three_rows"
    by (simp_all add: three_rows_def)
  from rolling_z_score [OF this(1), of 2] rolling_z_score [OF this(2), of 2]
  show ?thesis by simp
qed

subsection \<open>The snapshot and the alert\<close>

lemma calculate_analytics_body_returns:
  assumes "df \<noteq> []" and "adfuller (spread_of df) = Inr pv"
  shows "calculate_analytics_body adfuller df w
           = Inr \<lparr>hedge_ratio = hedge_ratio_of df, spread = zip (map fst df) (spread_of df),
                  z_score = zip (map fst df) (z_score_of w (spread_of df)),
                  rolling_corr = zip (map fst df) (rolling w win_corr (map snd df)),
                  adf_p_value = pv\<rparr>"
  using assms by (simp add: calculate_analytics_body_def Let_def)

lemma calculate_analytics_miss:
  assumes "cache w = None" and "calculate_analytics_body adfuller df w = Inr a"
  shows "calculate_analytics adfuller cache df w = (Inr a, cache(w \<mapsto> a))"
  using assms by (simp add: calculate_analytics_def)

lemma assign_column_own:
  assumes "distinct (map fst df)" and "length zs = length df"
  shows "assign_column df (zip (map fst df) zs) = zs"
proof (rule nth_equalityI)
  show "length (assign_column df (zip (map fst df) zs)) = length zs"
    using assms(2) by (simp add: assign_column_def)
next
  fix i
  assume "i < length (assign_column df (zip (map fst df) zs))"
  then have i: "i < length df"
    by (simp add: assign_column_def)
  with assms have "map_of (zip (map fst df) zs) (map fst df ! i) = Some (zs ! i)"
    by (intro map_of_zip_nth) simp_all
  with i show "assign_column df (zip (map fst df) zs) ! i = zs ! i"
    by (simp add: assign_column_def)
qed

lemma alert_breach_NaN: "alert_breach NaN t = False"
  by (simp add: alert_breach_def)

lemma z_score_of_all_nan:
  assumes "length xs < w"
  shows "z_score_of w xs = replicate (length xs) NaN"
proof (rule nth_equalityI)
  show "length (z_score_of w xs) = length (replicate (length xs) NaN)"
    by simp
next
  fix i
  assume "i < length (z_score_of w xs)"
  then have i: "i < length xs" by simp
  with assms have "Suc i < w \<or> (Suc i = w \<and> w \<le> Suc i)" by auto
  then show "z_score_of w xs ! i = replicate (length xs) NaN ! i"
  proof
    assume "Suc i < w"
    with i show ?thesis by (simp add: z_score_of_nth)
  next
    assume "Suc i = w \<and> w \<le> Suc i"
    with assms i show ?thesis by simp
  qed
qed

lemma rolling_all_nan:
  assumes "length xs < w"
  shows "rolling w f xs = replicate (length xs) NaN"
proof (rule nth_equalityI)
  show "length (rolling w f xs) = length (replicate (length xs) NaN)"
    by simp
next
  fix i
  assume "i < length (rolling w f xs)"
  then have i: "i < length xs" by simp
  with assms have "Suc i < w" by simp
  with i show "rolling w f xs ! i = replicate (length xs) NaN ! i"
    by (simp add: rolling_nth)
qed

lemma distinct_flat_tail: "distinct (map fst flat_tail)"
  by (simp add: flat_tail_def)

lemma calculate_analytics_flat_tail:
  "calculate_analytics adf_half Map.empty flat_tail w
     = (Inr \<lparr>hedge_ratio = hedge_ratio_of flat_tail,
              spread = zip (map fst flat_tail) (spread_of flat_tail),
              z_score = zip (map fst flat_tail) (z_score_of w (spread_of flat_tail)),
              rolling_corr = zip (map fst flat_tail) (rolling w win_corr (map snd flat_tail)),
              adf_p_value = 1 / 2\<rparr>,
        [w \<mapsto> \<lparr>hedge_ratio = hedge_ratio_of flat_tail,
              spread = zip (map fst flat_tail) (spread_of flat_tail),
              z_score = zip (map fst flat_tail) (z_score_of w (spread_of flat_tail)),
              rolling_corr = zip (map fst flat_tail) (rolling w win_corr (map snd flat_tail)),
              adf_p_value = 1 / 2\<rparr>])"
proof -
  have "flat_tail \<noteq> []"
    using length_flat_tail by auto
  then show ?thesis
    by (intro calculate_analytics_miss calculate_analytics_body_returns)
      (simp_all add: adf_half_def)
qed



lemma load_data_flat:
  "load_data parse_seconds db_flat
     = Inr \<lparr>columns = [''ts'', ''symbol'', ''price''],
            rows = [(0, ''btcusdt'', 100), (0, ''ethusdt'', 10),
                    (1000, ''btcusdt'', 101), (1000, ''ethusdt'', 11),
                    (2000, ''btcusdt'', 101), (2000, ''ethusdt'', 11)]\<rparr>"
  by (simp add: db_flat_def parse_seconds_def)

lemma get_pair_data_flat:
  "get_pair_data \<lparr>columns = [''ts'', ''symbol'', ''price''],
            rows = [(0, ''btcusdt'', 100), (0, ''ethusdt'', 10),
                    (1000, ''btcusdt'', 101), (1000, ''ethusdt'', 11),
                    (2000, ''btcusdt'', 101), (2000, ''ethusdt'', 11)]\<rparr>
     = [(0, 100, 10), (1000, 101, 11), (2000, 101, 11)]"
  by (simp add: get_pair_data_def is_empty_def select_symbol_def
      dedup_series_def is_unique_def concat_columns_def union_index_def ffill_def)

lemma resampled_flat:
  "resampled 1000 [(0, 100, 10), (1000, 101, 11), (2000, 101, 11)]
     = [(0, 100, 10), (1000, 101, 11), (2000, 101, 11)]"
  by (simp add: resampled_def resample_last_def bin_labels_def bucket_def Let_def upt_conv_Cons)


subsection \<open>Too few rows\<close>

lemma load_data_example:
  "load_data parse_example db_example
     = Inr \<lparr>columns = [''ts'', ''symbol'', ''price''],
            rows = [(1700000000000, ''btcusdt'', 100), (1700000000200, ''ethusdt'', 10)]\<rparr>"
  by (simp add: db_example_def parse_example_def)

lemma get_pair_data_db_example:
  "get_pair_data \<lparr>columns = [''ts'', ''symbol'', ''price''],
            rows = [(1700000000000, ''btcusdt'', 100), (1700000000200, ''ethusdt'', 10)]\<rparr>
     = [(1700000000200, 100, 10)]"
  by (simp add: get_pair_data_def is_empty_def select_symbol_def
      dedup_series_def is_unique_def concat_columns_def union_index_def ffill_def)

lemma resampled_db_example:
  "resampled 1000 [(1700000000200, 100, 10)] = [(1700000000000, 100, 10)]"
  by (simp add: resampled_def resample_last_def bin_labels_def bucket_def Let_def)

lemma short_frame_all_nan:
  assumes "df \<noteq> []" and "length df < w" and "cache w = None"
    and "adfuller (spread_of df) = Inr pv"
  shows "\<exists>a. calculate_analytics adfuller cache df w = (Inr a, cache(w \<mapsto> a))
             \<and> map snd (z_score a) = replicate (length df) NaN
             \<and> map snd (rolling_corr a) = replicate (length df) NaN"
proof -
  let ?a = "\<lparr>hedge_ratio = hedge_ratio_of df, spread = zip (map fst df) (spread_of df),
                  z_score = zip (map fst df) (z_score_of w (spread_of df)),
                  rolling_corr = zip (map fst df) (rolling w win_corr (map snd df)),
                  adf_p_value = pv\<rparr>"
  have "calculate_analytics_body adfuller df w = Inr ?a"
    using assms(1,4) by (rule calculate_analytics_body_returns)
  with assms(3) have "calculate_analytics adfuller cache df w = (Inr ?a, cache(w \<mapsto> ?a))"
    by (rule calculate_analytics_miss)
  moreover have "map snd (z_score ?a) = replicate (length df) NaN"
    using assms(2) by (simp add: z_score_of_all_nan)
  moreover have "map snd (rolling_corr ?a) = replicate (length df) NaN"
    using assms(2) by (simp add: rolling_all_nan)
  ultimately show ?thesis
    by blast
qed

text \<open>
  C3, as stated, fails: \<open>calculate_analytics\<close> has no length check.  Called with the twelve
  rows of \<open>flat_tail\<close> and the window 50, it returns, when the stationarity test returns, an
  ordinary snapshot whose z-score and correlation sequences are NaN throughout.
\<close>

theorem analytics_accept_short_series:
  "length flat_tail = 12
   \<and> map_sum id (\<lambda>a. (map snd (z_score a), map snd (rolling_corr a)))
        (fst (calculate_analytics adf_half Map.empty flat_tail 50))
       = Inr (replicate 12 NaN, replicate 12 NaN)"
  by (simp add: calculate_analytics_flat_tail length_flat_tail z_score_of_all_nan
      rolling_all_nan)

text \<open>
  C3, amended.  When the resampled series has fewer rows than the window, the script
  body rejects it before the analytics are called: the run stops with the warning that
  more data is needed, an outcome of its own, and leaves the cache as it was; a run that
  shows a snapshot had at least \<open>window\<close> rows.  \<open>calculate_analytics\<close> itself has no
  length check: called with a non-empty series shorter than the window, with no snapshot
  cached for the window and the stationarity test returning, it returns a snapshot whose
  z-score and correlation sequences are NaN throughout.
\<close>

theorem insufficient_data_is_rejected:
  "(load_data to_datetime db = Inr raw_df \<and> \<not> is_empty raw_df \<and> get_pair_data raw_df \<noteq> []
      \<and> length (resample (get_pair_data raw_df)) < rolling_window
    \<longrightarrow> run_dashboard to_datetime adfuller resample cache db rolling_window alert_z_score
          = (WaitingMoreData, cache))
   \<and> (run_dashboard to_datetime adfuller resample cache db rolling_window alert_z_score
         = (Dashboard a z b, cache')
       \<longrightarrow> (\<exists>raw_df. load_data to_datetime db = Inr raw_df
              \<and> rolling_window \<le> length (resample (get_pair_data raw_df))))
   \<and> (df \<noteq> [] \<and> length df < w \<and> cache w = None \<and> adfuller (spread_of df) = Inr pv
       \<longrightarrow> (\<exists>a. calculate_analytics adfuller cache df w = (Inr a, cache(w \<mapsto> a))
              \<and> map snd (z_score a) = replicate (length df) NaN
              \<and> map snd (rolling_corr a) = replicate (length df) NaN))"
proof (intro conjI impI)
  assume "load_data to_datetime db = Inr raw_df \<and> \<not> is_empty raw_df
      \<and> get_pair_data raw_df \<noteq> []
      \<and> length (resample (get_pair_data raw_df)) < rolling_window"
  then show "run_dashboard to_datetime adfuller resample cache db rolling_window alert_z_score
          = (WaitingMoreData, cache)"
    by (simp add: run_dashboard_def)
next
  assume run: "run_dashboard to_datetime adfuller resample cache db rolling_window alert_z_score
         = (Dashboard a z b, cache')"
  then obtain raw_df where raw: "load_data to_datetime db = Inr raw_df"
    by (cases "load_data to_datetime db") (simp_all add: run_dashboard_def)
  from run raw have "rolling_window \<le> length (resample (get_pair_data raw_df))"
    by (auto simp: run_dashboard_def Let_def split: if_splits sum.splits prod.splits)
  with raw show "\<exists>raw_df. load_data to_datetime db = Inr raw_df
              \<and> rolling_window \<le> length (resample (get_pair_data raw_df))"
    by blast
next
  assume "df \<noteq> [] \<and> length df < w \<and> cache w = None \<and> adfuller (spread_of df) = Inr pv"
  then show "\<exists>a. calculate_analytics adfuller cache df w = (Inr a, cache(w \<mapsto> a))
              \<and> map snd (z_score a) = replicate (length df) NaN
              \<and> map snd (rolling_corr a) = replicate (length df) NaN"
    by (intro short_frame_all_nan) simp_all
qed

theorem insufficient_data_is_rejected_witness:
  "run_dashboard parse_example adf_half (resampled 1000) Map.empty db_example 10 2
     = (WaitingMoreData, Map.empty)
   \<and> (\<exists>a. calculate_analytics adf_half Map.empty three_rows 10
            = (Inr a, [10 \<mapsto> a])
          \<and> map snd (z_score a) = replicate (length three_rows) NaN
          \<and> map snd (rolling_corr a) = replicate (length three_rows) NaN)"
proof -
  let ?raw = "\<lparr>columns = [''ts'', ''symbol'', ''price''],
            rows = [(1700000000000, ''btcusdt'', 100), (1700000000200, ''ethusdt'', 10 :: real)]\<rparr>"
  have "load_data parse_example db_example = Inr ?raw \<and> \<not> is_empty ?raw
      \<and> get_pair_data ?raw \<noteq> []
      \<and> length (resampled 1000 (get_pair_data ?raw)) < 10"
    by (simp add: load_data_example get_pair_data_db_example resampled_db_example is_empty_def)
  moreover have "three_rows \<noteq> [] \<and> length three_rows < 10
      \<and> Map.empty (10::nat) = (None :: snapshot option)
      \<and> adf_half (spread_of three_rows) = Inr (1 / 2)"
    by (simp add: three_rows_def adf_half_def)
  ultimately show ?thesis
    using insufficient_data_is_rejected
      [of parse_example db_example ?raw "resampled 1000" 10 adf_half Map.empty 2
          _ _ _ _ three_rows 10 "1 / 2"]
    by blast
qed

subsection \<open>Trade times\<close>

text \<open>
  The float division \<^verbatim>\<open>T / 1000\<close> and the split into seconds and microseconds lose nothing
  as long as \<open>T\<close> is below \<open>2\<^sup>3\<^sup>3\<close> seconds: a float of that size is within \<open>2\<^sup>-\<^sup>2\<^sup>1\<close> of the
  quotient, so its fraction times \<open>10\<^sup>6\<close> is within half a microsecond of the milliseconds
  of \<open>T\<close>.
\<close>

lemma round_half_even_error: "\<bar>of_int (round_half_even y) - y\<bar> \<le> 1 / 2"
  unfolding round_half_even_def Let_def
  by (auto simp: abs_le_iff)

lemma round_half_even_near:
  assumes "\<bar>y - of_int n\<bar> < 1 / 2"
  shows "round_half_even y = n"
proof -
  have "\<bar>of_int (round_half_even y) - y\<bar> \<le> 1 / 2"
    by (rule round_half_even_error)
  with assms have "\<bar>(of_int (round_half_even y) :: real) - of_int n\<bar> < 1"
    by linarith
  then have "\<bar>round_half_even y - n\<bar> < 1"
    by (metis of_int_diff of_int_abs of_int_less_1_iff)
  then show ?thesis
    by simp
qed

lemma round_half_even_of_int: "round_half_even (of_int n) = n"
  by (rule round_half_even_near) simp

lemma floor_log2_less:
  assumes "0 < x" and "x < 2 ^ n"
  shows "\<lfloor>log 2 x\<rfloor> < int n"
proof -
  have "log 2 x < of_nat n"
    using assms by (simp add: log_less_iff powr_realpow)
  then show ?thesis
    by linarith
qed

lemma fl64_error:
  assumes "0 < x" and "x < 2 ^ n"
  shows "\<bar>fl64 x - x\<bar> \<le> 2 powr (of_int (int n) - 54)"
proof -
  define e where "e = \<lfloor>log 2 \<bar>x\<bar>\<rfloor>"
  define q :: real where "q = 2 powr (of_int e - 52)"
  have q: "0 < q"
    by (simp add: q_def)
  have "e < int n"
    using floor_log2_less [OF assms] assms(1) by (simp add: e_def)
  then have "(of_int e :: real) - 53 \<le> of_int (int n) - 54"
    by simp
  then have le: "2 powr (of_int e - 53) \<le> (2::real) powr (of_int (int n) - 54)"
    by (simp del: of_int_of_nat_eq)
  have "fl64 x = of_int (round_half_even (x / q)) * q"
    using assms(1) by (simp add: fl64_def Let_def e_def q_def)
  then have "fl64 x - x = (of_int (round_half_even (x / q)) - x / q) * q"
    using q by (simp add: field_simps)
  then have "\<bar>fl64 x - x\<bar> = \<bar>of_int (round_half_even (x / q)) - x / q\<bar> * q"
    using q by (simp add: abs_mult)
  also have "\<dots> \<le> 1 / 2 * q"
    using q round_half_even_error [of "x / q"] by (intro mult_right_mono) simp_all
  also have "1 / 2 * q = 2 powr (of_int e - 53)"
  proof -
    have "(2::real) powr (of_int e - 52) = 2 powr (of_int e - 53 + 1)"
      by simp
    also have "\<dots> = 2 powr (of_int e - 53) * 2"
      by (simp only: powr_add) simp
    finally show ?thesis
      by (simp add: q_def)
  qed
  finally show ?thesis
    using le by linarith
qed

lemma fl64_of_int:
  assumes "0 < k" and "k < 2 ^ 53"
  shows "fl64 (of_int k) = of_int k"
proof -
  define e where "e = \<lfloor>log 2 \<bar>of_int k :: real\<bar>\<rfloor>"
  define q :: real where "q = 2 powr (of_int e - 52)"
  have "(0::real) < of_int k" "(of_int k :: real) < 2 ^ 53"
    using assms by simp_all
  then have "e < 53"
    using floor_log2_less [of "of_int k" 53] by (simp add: e_def)
  then have "(of_int e :: real) - 52 = - of_int (int (nat (52 - e)))"
    by simp
  then have "q = 2 powr - of_int (int (nat (52 - e)))"
    by (simp add: q_def)
  also have "\<dots> = 1 / 2 ^ nat (52 - e)"
    by (simp only: powr_minus of_int_of_nat_eq powr_realpow [of 2, simplified]) (simp add: field_simps)
  finally have q: "q = 1 / 2 ^ nat (52 - e)" .
  have "of_int k / q = (of_int (k * 2 ^ nat (52 - e)) :: real)"
    by (simp add: q)
  then have "round_half_even (of_int k / q) = k * 2 ^ nat (52 - e)"
    by (simp only: round_half_even_of_int)
  moreover have "fl64 (of_int k) = of_int (round_half_even (of_int k / q)) * q"
    using assms(1) by (simp add: fl64_def Let_def e_def q_def)
  ultimately show ?thesis
    by (simp add: q)
qed

lemma powr_minus_21: "(2::real) powr (of_int (int 33) - 54) = 1 / 2 ^ 21"
proof -
  have "(2::real) powr (of_int (int 33) - 54) = 2 powr - of_nat 21"
    by simp
  also have "\<dots> = 1 / 2 ^ 21"
    by (simp only: powr_minus powr_realpow [of 2, simplified]) (simp add: field_simps)
  finally show ?thesis .
qed

lemma powr_minus_34: "(2::real) powr (of_int (int 20) - 54) = 1 / 2 ^ 34"
proof -
  have "(2::real) powr (of_int (int 20) - 54) = 2 powr - of_nat 34"
    by simp
  also have "\<dots> = 1 / 2 ^ 34"
    by (simp only: powr_minus powr_realpow [of 2, simplified]) (simp add: field_simps)
  finally show ?thesis .
qed

lemma to_timeval_of_int:
  assumes "0 \<le> s" and "s < 2 ^ 53"
  shows "to_timeval (fl64 (of_int s)) = (s, 0)"
proof -
  have "fl64 (of_int s) = of_int s"
  proof (cases "s = 0")
    case True
    then show ?thesis
      by (simp add: fl64_def)
  next
    case False
    with assms show ?thesis
      by (intro fl64_of_int) simp_all
  qed
  moreover have "fl64 0 = 0"
    by (simp add: fl64_def)
  moreover have "round_half_even 0 = 0"
    using round_half_even_of_int [of 0] by simp
  ultimately show ?thesis
    using assms(1) by (simp add: to_timeval_def)
qed

lemma to_timeval_py_truediv:
  assumes "0 \<le> t" and "t < 8589934592000"
  shows "to_timeval (py_truediv t 1000) = (t div 1000, (t mod 1000) * 1000)"
proof (cases "t mod 1000 = 0")
  case True
  define s where "s = t div 1000"
  have t: "t = 1000 * s"
    using True by (auto simp: s_def)
  have "0 \<le> s" "s < 2 ^ 53"
    using assms by (simp_all add: t)
  then have "to_timeval (fl64 (of_int s)) = (s, 0)"
    by (rule to_timeval_of_int)
  moreover have "(of_int t :: real) / of_int 1000 = of_int s"
    by (simp add: t)
  ultimately show ?thesis
    using True by (simp add: py_truediv_def flip: s_def)
next
  case False
  define s where "s = t div 1000"
  define m where "m = t mod 1000"
  have t: "t = 1000 * s + m"
    by (simp add: s_def m_def)
  have m: "1 \<le> m" "m \<le> 999"
    using False by (simp_all add: m_def)
  have s: "0 \<le> s" "s < 8589934592"
    using assms by (simp_all add: s_def)
  define x :: real where "x = of_int t / of_int 1000"
  have x: "x = of_int s + of_int m / 1000"
    by (simp add: x_def t)
  have mr: "(1::real) \<le> of_int m" "(of_int m :: real) \<le> 999"
    using m by simp_all
  have sr: "(0::real) \<le> of_int s" "(of_int s :: real) \<le> 8589934591"
    using s by simp_all
  have xpos: "0 < x" and xlt: "x < 2 ^ 33"
    using mr sr by (simp_all add: x)
  define d where "d = fl64 x"
  have "\<bar>d - x\<bar> \<le> 2 powr (of_int (int 33) - 54)"
    unfolding d_def using xpos xlt by (rule fl64_error)
  then have "\<bar>d - x\<bar> \<le> 1 / 2 ^ 21"
    by (simp only: powr_minus_21)
  moreover have "(1::real) / 2 ^ 21 = 1 / 2097152"
    by simp
  ultimately have err: "d - x \<le> 1 / 2097152" "x - d \<le> 1 / 2097152"
    by linarith+
  have d: "of_int s < d" "d < of_int s + 1"
    using err mr x by linarith+
  then have fl: "\<lfloor>d\<rfloor> = s"
    by linarith
  have d0: "0 \<le> d"
    using d(1) sr(1) by linarith
  define y where "y = (d - of_int s) * 1000000"
  have ynear: "y - of_int (1000 * m) \<le> 1000000 / 2097152"
    "of_int (1000 * m) - y \<le> 1000000 / 2097152"
    using err x unfolding y_def by simp_all
  have ypos: "0 < y" and ylt: "y < 2 ^ 20"
    using ynear mr by simp_all
  have "\<bar>fl64 y - y\<bar> \<le> 2 powr (of_int (int 20) - 54)"
    using ypos ylt by (rule fl64_error)
  then have "\<bar>fl64 y - y\<bar> \<le> 1 / 2 ^ 34"
    by (simp only: powr_minus_34)
  moreover have "(1::real) / 2 ^ 34 = 1 / 17179869184"
    by simp
  ultimately have "fl64 y - y \<le> 1 / 17179869184" "y - fl64 y \<le> 1 / 17179869184"
    by linarith+
  with ynear have "\<bar>fl64 y - of_int (1000 * m)\<bar> < 1 / 2"
    by linarith
  then have r: "round_half_even (fl64 y) = 1000 * m"
    by (rule round_half_even_near)
  have "y = d * 1000000 - of_int s * 1000000"
    by (simp add: y_def algebra_simps)
  with r have "round_half_even (fl64 (d * 1000000 - of_int s * 1000000)) = 1000 * m"
    by simp
  then have "to_timeval d = (s, 1000 * m)"
    using m d0 by (simp add: to_timeval_def fl Let_def)
  then show ?thesis
    by (simp add: py_truediv_def s_def m_def d_def x_def)
qed

text \<open>
  The calendar.  Within an era of 400 years the year and the day of the year that
  \<open>civil_from_days\<close> computes are in range, so the month is 1 to 12 and the day 1 to 31,
  and \<open>days_from_civil\<close> gives back the day number.
\<close>

lemma int_div_eqI:
  fixes x k q :: int
  assumes "k * q \<le> x" and "x < k * q + k"
  shows "x div k = q"
proof -
  have "x = k * q + (x - k * q)" "0 \<le> x - k * q" "x - k * q < k"
    using assms by simp_all
  then show ?thesis
    by (rule int_div_pos_eq)
qed

lemma int_div_lower:
  fixes x k :: int
  assumes "0 < k"
  shows "k * (x div k) \<le> x"
  using assms by (metis mult.commute div_mult_mod_eq pos_mod_sign le_add_same_cancel1 mult.commute)

lemma int_div_upper:
  fixes x k :: int
  assumes "0 < k"
  shows "x < k * (x div k) + k"
  using assms by (metis add_less_cancel_left mult.commute mult_div_mod_eq pos_mod_bound)

lemma century_day:
  fixes b e :: int
  assumes b: "0 \<le> b" "b \<le> 3" and e: "0 \<le> e" "e \<le> 36523"
  defines "k \<equiv> (24 * b + e) div 1460"
  defines "y \<equiv> (e - k) div 365"
  shows "0 \<le> y \<and> y \<le> 99 \<and> 0 \<le> e - 365 * y - y div 4 \<and> e - 365 * y - y div 4 \<le> 365"
proof -
  define c4 where "c4 = e div 1461"
  define f where "f = e mod 1461"
  have ef: "e = 1461 * c4 + f"
    by (simp add: c4_def f_def)
  have f: "0 \<le> f" "f \<le> 1460"
    by (simp_all add: f_def)
  have c4: "0 \<le> c4" "c4 \<le> 24"
    using e by (simp_all add: c4_def)
  define dl where "dl = (24 * b + c4 + f) div 1460"
  have dl1: "1460 * dl \<le> 24 * b + c4 + f"
    unfolding dl_def by (rule int_div_lower) simp
  have dl2: "24 * b + c4 + f < 1460 * dl + 1460"
    unfolding dl_def by (rule int_div_upper) simp
  have dl: "dl = 0 \<or> dl = 1"
    using dl1 dl2 b c4 f by linarith
  have k: "k = c4 + dl"
    unfolding k_def using dl1 dl2 by (intro int_div_eqI) (simp_all add: ef)
  define g where "g = (f - dl) div 365"
  have g1: "365 * g \<le> f - dl"
    unfolding g_def by (rule int_div_lower) simp
  have g2: "f - dl < 365 * g + 365"
    unfolding g_def by (rule int_div_upper) simp
  have g: "0 \<le> g" "g \<le> 3"
    using dl dl1 dl2 g1 g2 b c4 f by auto
  have y: "y = 4 * c4 + g"
    unfolding y_def using g1 g2 by (intro int_div_eqI) (simp_all add: ef k)
  have y4: "y div 4 = c4"
    using g by (intro int_div_eqI) (simp_all add: y)
  show ?thesis
    using g g1 g2 dl c4 by (auto simp: y4) (simp_all add: y ef)
qed

lemma day_of_era:
  fixes doe :: int
  assumes "0 \<le> doe" and "doe < 146097"
  defines "yoe \<equiv> (doe - doe div 1460 + doe div 36524 - doe div 146096) div 365"
  defines "doy \<equiv> doe - (365 * yoe + yoe div 4 - yoe div 100)"
  shows "0 \<le> yoe \<and> yoe \<le> 399 \<and> 0 \<le> doy \<and> doy \<le> 365"
proof (cases "doe = 146096")
  case True
  then show ?thesis
    by (simp add: yoe_def doy_def)
next
  case False
  with assms(2) have doe: "doe \<le> 146095"
    by simp
  define b where "b = doe div 36524"
  define e where "e = doe mod 36524"
  have de: "doe = 36524 * b + e"
    by (simp add: b_def e_def)
  have e: "0 \<le> e" "e \<le> 36523"
    by (simp_all add: e_def)
  have b: "0 \<le> b" "b \<le> 3"
    using assms(1) doe by (simp_all add: b_def)
  define k where "k = (24 * b + e) div 1460"
  define y where "y = (e - k) div 365"
  have cd: "0 \<le> y \<and> y \<le> 99 \<and> 0 \<le> e - 365 * y - y div 4 \<and> e - 365 * y - y div 4 \<le> 365"
    unfolding y_def k_def using b e by (rule century_day)
  have k1: "1460 * k \<le> 24 * b + e"
    unfolding k_def by (rule int_div_lower) simp
  have k2: "24 * b + e < 1460 * k + 1460"
    unfolding k_def by (rule int_div_upper) simp
  have y1: "365 * y \<le> e - k"
    unfolding y_def by (rule int_div_lower) simp
  have y2: "e - k < 365 * y + 365"
    unfolding y_def by (rule int_div_upper) simp
  have u1: "4 * (y div 4) \<le> y"
    by (rule int_div_lower) simp
  have u2: "y < 4 * (y div 4) + 4"
    by (rule int_div_upper) simp
  have a: "doe div 1460 = 25 * b + k"
    using k1 k2 by (intro int_div_eqI) (simp_all add: de)
  have c: "doe div 146096 = 0"
    using assms(1) doe by simp
  have "doe div 36524 = b"
    by (simp add: b_def)
  then have "doe - doe div 1460 + doe div 36524 - doe div 146096 = 36500 * b + e - k"
    by (simp only: a c) (simp add: de)
  then have "yoe = (36500 * b + e - k) div 365"
    by (simp only: yoe_def)
  also have "\<dots> = 100 * b + y"
    using y1 y2 by (intro int_div_eqI) simp_all
  finally have yoe: "yoe = 100 * b + y" .
  have yoe4: "yoe div 4 = 25 * b + y div 4"
    using u1 u2 by (intro int_div_eqI) (simp_all add: yoe)
  have yoe100: "yoe div 100 = b"
    using cd by (intro int_div_eqI) (simp_all add: yoe)
  have "doy = e - 365 * y - y div 4"
    by (simp add: doy_def yoe4 yoe100) (simp add: yoe de)
  with cd b show ?thesis
    by (simp add: yoe)
qed

lemma month_day_of_year:
  fixes doy :: int
  assumes "0 \<le> doy" and "doy \<le> 365"
  defines "mp \<equiv> (5 * doy + 2) div 153"
  shows "0 \<le> mp \<and> mp \<le> 11 \<and> 0 \<le> doy - (153 * mp + 2) div 5 \<and> doy - (153 * mp + 2) div 5 \<le> 30"
proof -
  have m1: "153 * mp \<le> 5 * doy + 2"
    unfolding mp_def by (rule int_div_lower) simp
  have m2: "5 * doy + 2 < 153 * mp + 153"
    unfolding mp_def by (rule int_div_upper) simp
  have mp: "0 \<le> mp" "mp \<le> 11"
    using m1 m2 assms(1,2) by linarith+
  define q where "q = (153 * mp + 2) div 5"
  have q1: "5 * q \<le> 153 * mp + 2"
    unfolding q_def by (rule int_div_lower) simp
  have q2: "153 * mp + 2 < 5 * q + 5"
    unfolding q_def by (rule int_div_upper) simp
  have "0 \<le> doy - q"
    using m1 q1 by linarith
  moreover have "doy - q \<le> 30"
    using m2 q2 by linarith
  ultimately show ?thesis
    using mp by (simp add: q_def)
qed

lemma civil_from_days_cases:
  obtains era yoe doy mp where
    "civil_from_days z = (if mp < 10 then yoe + era * 400 else yoe + era * 400 + 1,
        if mp < 10 then mp + 3 else mp - 9, doy - (153 * mp + 2) div 5 + 1)"
    and "0 \<le> yoe" and "yoe \<le> 399" and "0 \<le> mp" and "mp \<le> 11"
    and "0 \<le> doy - (153 * mp + 2) div 5" and "doy - (153 * mp + 2) div 5 \<le> 30"
    and "z + 719468 = era * 146097 + (yoe * 365 + yoe div 4 - yoe div 100 + doy)"
    and "era = (z + 719468) div 146097"
proof -
  define era where "era = (z + 719468) div 146097"
  define doe where "doe = (z + 719468) mod 146097"
  define yoe where "yoe = (doe - doe div 1460 + doe div 36524 - doe div 146096) div 365"
  define doy where "doy = doe - (365 * yoe + yoe div 4 - yoe div 100)"
  define mp where "mp = (5 * doy + 2) div 153"
  have doe: "0 \<le> doe" "doe < 146097"
    by (simp_all add: doe_def)
  then have yd: "0 \<le> yoe \<and> yoe \<le> 399 \<and> 0 \<le> doy \<and> doy \<le> 365"
    unfolding yoe_def doy_def by (rule day_of_era)
  then have md: "0 \<le> mp \<and> mp \<le> 11 \<and> 0 \<le> doy - (153 * mp + 2) div 5
      \<and> doy - (153 * mp + 2) div 5 \<le> 30"
    unfolding mp_def by (intro month_day_of_year) simp_all
  have "civil_from_days z = (if (if mp < 10 then mp + 3 else mp - 9) \<le> 2
        then yoe + era * 400 + 1 else yoe + era * 400,
        if mp < 10 then mp + 3 else mp - 9, doy - (153 * mp + 2) div 5 + 1)"
    unfolding civil_from_days_def era_def doe_def yoe_def doy_def mp_def
    by (simp only: Let_def)
  moreover have "((if mp < 10 then mp + 3 else mp - 9) \<le> 2) = (\<not> mp < 10)"
    using md by auto
  ultimately have "civil_from_days z = (if mp < 10 then yoe + era * 400 else yoe + era * 400 + 1,
        if mp < 10 then mp + 3 else mp - 9, doy - (153 * mp + 2) div 5 + 1)"
    by simp
  moreover have "z + 719468 = era * 146097 + (yoe * 365 + yoe div 4 - yoe div 100 + doy)"
    by (simp add: doy_def era_def doe_def)
  ultimately show ?thesis
    using yd md that [of mp yoe era doy] by (simp add: era_def)
qed

lemma civil_from_days_range:
  assumes "civil_from_days z = (y, m, d)"
  shows "1 \<le> m \<and> m \<le> 12 \<and> 1 \<le> d \<and> d \<le> 31"
proof -
  obtain era yoe doy mp where
    "civil_from_days z = (if mp < 10 then yoe + era * 400 else yoe + era * 400 + 1,
        if mp < 10 then mp + 3 else mp - 9, doy - (153 * mp + 2) div 5 + 1)"
    and "0 \<le> mp" and "mp \<le> 11"
    and "0 \<le> doy - (153 * mp + 2) div 5" and "doy - (153 * mp + 2) div 5 \<le> 30"
    by (rule civil_from_days_cases)
  with assms show ?thesis
    by (auto split: if_splits)
qed

lemma days_from_civil_inverse:
  assumes "civil_from_days z = (y, m, d)"
  shows "days_from_civil y m d = z"
proof -
  obtain era yoe doy mp where
    c: "civil_from_days z = (if mp < 10 then yoe + era * 400 else yoe + era * 400 + 1,
        if mp < 10 then mp + 3 else mp - 9, doy - (153 * mp + 2) div 5 + 1)"
    and yoe: "0 \<le> yoe" "yoe \<le> 399" and mp: "0 \<le> mp" "mp \<le> 11"
    and z: "z + 719468 = era * 146097 + (yoe * 365 + yoe div 4 - yoe div 100 + doy)"
    by (rule civil_from_days_cases)
  have era: "(yoe + era * 400) div 400 = era"
    using yoe by (intro int_div_eqI) simp_all
  show ?thesis
  proof (cases "mp < 10")
    case True
    with c assms mp have "y = yoe + era * 400" "m = mp + 3" "d = doy - (153 * mp + 2) div 5 + 1"
      by simp_all
    then show ?thesis
      using mp z by (simp add: days_from_civil_def era)
  next
    case False
    with c assms mp have "y = yoe + era * 400 + 1" "m = mp - 9" "d = doy - (153 * mp + 2) div 5 + 1"
      by simp_all
    then show ?thesis
      using False mp z by (simp add: days_from_civil_def era)
  qed
qed

lemma civil_from_days_year:
  assumes "civil_from_days z = (y, m, d)" and "- 5 \<le> z" and "z \<le> 99425"
  shows "1600 \<le> y \<and> y \<le> 2401"
proof -
  obtain era yoe doy mp where
    c: "civil_from_days z = (if mp < 10 then yoe + era * 400 else yoe + era * 400 + 1,
        if mp < 10 then mp + 3 else mp - 9, doy - (153 * mp + 2) div 5 + 1)"
    and yoe: "0 \<le> yoe" "yoe \<le> 399"
    and era: "era = (z + 719468) div 146097"
    by (rule civil_from_days_cases)
  have "146097 * era \<le> z + 719468"
    unfolding era by (rule int_div_lower) simp
  moreover have "z + 719468 < 146097 * era + 146097"
    unfolding era by (rule int_div_upper) simp
  ultimately have "4 \<le> era" "era \<le> 5"
    using assms(2,3) by linarith+
  with c assms(1) yoe show ?thesis
    by (auto split: if_splits)
qed

text \<open>The decimal digits that \<open>isoformat\<close> writes are read back as the numbers they
  were written from.\<close>

lemma ten_cases:
  fixes k :: nat
  assumes "k < 10"
  shows "k = 0 \<or> k = 1 \<or> k = 2 \<or> k = 3 \<or> k = 4 \<or> k = 5 \<or> k = 6 \<or> k = 7 \<or> k = 8 \<or> k = 9"
  using assms by presburger

lemma digits2:
  fixes n :: nat
  assumes "n < 100"
  shows "10 * (n div 10 mod 10) + n mod 10 = n"
  using assms by simp

lemma digits4:
  fixes n :: nat
  assumes "n < 10000"
  shows "10 * (10 * (10 * (n div 1000 mod 10) + n div 100 mod 10) + n div 10 mod 10) + n mod 10 = n"
proof -
  define a where "a = n div 10"
  define b where "b = a div 10"
  define c where "c = b div 10"
  have e: "n div 10 = a" "n div 100 = b" "n div 1000 = c"
    by (simp_all add: a_def b_def c_def div_mult2_eq [symmetric])
  have "c mod 10 = c"
    using assms by (simp add: a_def b_def c_def div_mult2_eq [symmetric])
  moreover have "10 * c + b mod 10 = b" "10 * b + a mod 10 = a" "10 * a + n mod 10 = n"
    by (simp_all add: a_def b_def c_def)
  ultimately show ?thesis
    by (simp only: e)
qed

lemma digits6:
  fixes n :: nat
  assumes "n < 1000000"
  shows "10 * (10 * (10 * (10 * (10 * (n div 100000 mod 10) + n div 10000 mod 10)
      + n div 1000 mod 10) + n div 100 mod 10) + n div 10 mod 10) + n mod 10 = n"
proof -
  define a where "a = n div 10"
  define b where "b = a div 10"
  define c where "c = b div 10"
  define d where "d = c div 10"
  define e where "e = d div 10"
  have eq: "n div 10 = a" "n div 100 = b" "n div 1000 = c" "n div 10000 = d" "n div 100000 = e"
    by (simp_all add: a_def b_def c_def d_def e_def div_mult2_eq [symmetric])
  have "e mod 10 = e"
    using assms by (simp add: a_def b_def c_def d_def e_def div_mult2_eq [symmetric])
  moreover have "10 * e + d mod 10 = d" "10 * d + c mod 10 = c" "10 * c + b mod 10 = b"
    "10 * b + a mod 10 = a" "10 * a + n mod 10 = n"
    by (simp_all add: a_def b_def c_def d_def e_def)
  ultimately show ?thesis
    by (simp only: eq)
qed

lemma time_of_day:
  fixes r :: int
  assumes "0 \<le> r" and "r < 86400"
  shows "r div 3600 * 3600 + r div 60 mod 60 * 60 + r mod 60 = r"
    and "r div 3600 \<le> 23" and "0 \<le> r div 3600"
proof -
  have "r div 3600 = r div 60 div 60"
    by (simp add: div_mult2_eq [symmetric])
  then have "r div 3600 * 60 + r div 60 mod 60 = r div 60"
    by simp
  then have "r div 3600 * 3600 + r div 60 mod 60 * 60 = r div 60 * 60"
    by linarith
  then show "r div 3600 * 3600 + r div 60 mod 60 * 60 + r mod 60 = r"
    by simp
  show "r div 3600 \<le> 23" "0 \<le> r div 3600"
    using assms by simp_all
qed

lemma digit_is_digit: "is_digit (digit n)"
proof -
  have "n mod 10 < 10"
    by simp
  then have "n mod 10 = 0 \<or> n mod 10 = 1 \<or> n mod 10 = 2 \<or> n mod 10 = 3 \<or> n mod 10 = 4
      \<or> n mod 10 = 5 \<or> n mod 10 = 6 \<or> n mod 10 = 7 \<or> n mod 10 = 8 \<or> n mod 10 = 9"
    by (rule ten_cases)
  then show ?thesis
    by (elim disjE) (simp_all add: digit_def is_digit_def)
qed

lemma digit_value_digit: "digit_value (digit n) = n mod 10"
proof -
  have "n mod 10 < 10"
    by simp
  then have "n mod 10 = 0 \<or> n mod 10 = 1 \<or> n mod 10 = 2 \<or> n mod 10 = 3 \<or> n mod 10 = 4
      \<or> n mod 10 = 5 \<or> n mod 10 = 6 \<or> n mod 10 = 7 \<or> n mod 10 = 8 \<or> n mod 10 = 9"
    by (rule ten_cases)
  then show ?thesis
    by (elim disjE) (simp_all add: digit_def digit_value_def)
qed

lemma decimal_pad2:
  assumes "n < 100"
  shows "decimal (pad2 n) = int n"
proof -
  have "decimal (pad2 n) = int (10 * (n div 10 mod 10) + n mod 10)"
    by (simp add: decimal_def pad2_def digit_value_digit)
  then show ?thesis
    by (simp only: digits2 [OF assms])
qed

lemma decimal_pad4:
  assumes "n < 10000"
  shows "decimal (pad4 n) = int n"
proof -
  have "decimal (pad4 n)
      = int (10 * (10 * (10 * (n div 1000 mod 10) + n div 100 mod 10) + n div 10 mod 10) + n mod 10)"
    by (simp add: decimal_def pad4_def digit_value_digit)
  then show ?thesis
    by (simp only: digits4 [OF assms])
qed

lemma decimal_pad6:
  assumes "n < 1000000"
  shows "decimal (pad6 n) = int n"
proof -
  have "decimal (pad6 n)
      = int (10 * (10 * (10 * (10 * (10 * (n div 100000 mod 10) + n div 10000 mod 10)
          + n div 1000 mod 10) + n div 100 mod 10) + n div 10 mod 10) + n mod 10)"
    by (simp add: decimal_def pad6_def digit_value_digit)
  then show ?thesis
    by (simp only: digits6 [OF assms])
qed

lemma list_all_is_digit_pad:
  "list_all is_digit (pad2 n)" "list_all is_digit (pad4 n)" "list_all is_digit (pad6 n)"
  by (simp_all add: pad2_def pad4_def pad6_def digit_is_digit)

lemma length_pad: "length (pad2 n) = 2" "length (pad4 n) = 4" "length (pad6 n) = 6"
  by (simp_all add: pad2_def pad4_def pad6_def)

lemma isoformat_fields:
  fixes local us :: int
  assumes c: "civil_from_days (local div 86400) = (y, m, d)"
  defines "r \<equiv> nat (local mod 86400)"
  defines "stamp \<equiv> isoformat local us"
  shows "length stamp = (if us = 0 then 19 else 26)"
    and "stamp ! 4 = CHR ''-''" and "stamp ! 7 = CHR ''-''" and "stamp ! 10 = CHR ''T''"
    and "stamp ! 13 = CHR '':''" and "stamp ! 16 = CHR '':''"
    and "us \<noteq> 0 \<Longrightarrow> stamp ! 19 = CHR ''.''"
    and "take 4 stamp = pad4 (nat y)" and "take 2 (drop 5 stamp) = pad2 (nat m)"
    and "take 2 (drop 8 stamp) = pad2 (nat d)" and "take 2 (drop 11 stamp) = pad2 (r div 3600)"
    and "take 2 (drop 14 stamp) = pad2 (r div 60 mod 60)"
    and "take 2 (drop 17 stamp) = pad2 (r mod 60)"
    and "drop 20 stamp = (if us = 0 then [] else pad6 (nat us))"
  unfolding stamp_def r_def isoformat_def c
  by (simp_all add: pad2_def pad4_def pad6_def Let_def)

lemma iso8601_reading_isoformat:
  assumes c: "civil_from_days (local div 86400) = (y, m, d)"
    and y: "0 \<le> y" "y \<le> 9999" and us: "0 \<le> us" "us < 1000000"
  shows "iso8601_reading (isoformat local us)
    = Some (y, m, d, local mod 86400 div 3600, local mod 86400 div 60 mod 60,
        local mod 86400 mod 60, us)"
proof -
  define r where "r = nat (local mod 86400)"
  have ir: "int r = local mod 86400"
    by (simp add: r_def)
  have r: "r < 86400"
    by (simp add: r_def nat_less_iff)
  have md: "1 \<le> m \<and> m \<le> 12 \<and> 1 \<le> d \<and> d \<le> 31"
    using c by (rule civil_from_days_range)
  have dy: "decimal (pad4 (nat y)) = y"
    using y by (simp add: decimal_pad4)
  have "nat m < 100" "int (nat m) = m" "nat d < 100" "int (nat d) = d"
    using md by linarith+
  then have dm: "decimal (pad2 (nat m)) = m" and dd: "decimal (pad2 (nat d)) = d"
    by (simp_all add: decimal_pad2)
  have dh: "decimal (pad2 (r div 3600)) = local mod 86400 div 3600"
    using r by (simp add: decimal_pad2 zdiv_int ir)
  have dmi: "decimal (pad2 (r div 60 mod 60)) = local mod 86400 div 60 mod 60"
    by (simp add: decimal_pad2 zdiv_int zmod_int ir)
  have ds: "decimal (pad2 (r mod 60)) = local mod 86400 mod 60"
    by (simp add: decimal_pad2 zmod_int ir)
  have du: "decimal (if us = 0 then [] else pad6 (nat us)) = us"
    using us by (simp add: decimal_pad6) (simp add: decimal_def)
  have rg: "local mod 86400 div 3600 \<le> 23" "local mod 86400 div 60 mod 60 \<le> 59"
    "local mod 86400 mod 60 \<le> 59"
    by simp_all
  note f = isoformat_fields [OF c, of us, folded r_def]
  show ?thesis
    unfolding iso8601_reading_def Let_def f dy dm dd dh dmi ds du
    using md rg f(7) by (simp add: list_all_is_digit_pad)
qed

text \<open>The reading on dates and texts that are known: 1970-01-01 is day 0, and the trade
  time of \<open>trade_example\<close> is read back from its UTC text.\<close>

lemma days_from_civil_examples:
  "days_from_civil 1970 1 1 = 0" "days_from_civil 2023 11 14 = 19675"
  "days_from_civil 2000 2 29 = 11016" "days_from_civil 2242 3 16 = 99420"
  unfolding days_from_civil_def by (simp_all only: Let_def) simp_all

lemma utc_instant_of_text_example:
  "utc_instant_of_text ''2023-11-14T22:13:20.123000'' = Some (1000 * 1700000000123)"
  "utc_instant_of_text ''2023-11-14T23:13:20.123000'' = Some (1000 * 1700003600123)"
  "utc_instant_of_text ''2023-11-14 22:13:20.123000'' = None"
  by (simp_all add: utc_instant_of_text_def iso8601_reading_def decimal_def digit_value_def
      is_digit_def days_from_civil_examples)

text \<open>From 1969 to 2242 every year that \<open>fromtimestamp\<close> looks at is in range, so the
  call returns.\<close>

lemma year_ok_local:
  assumes "- 432000 \<le> s + utcoffset s" and "s + utcoffset s \<le> 8590320000"
  shows "year_ok (year_of_local utcoffset s)"
proof -
  obtain y m d where c: "civil_from_days ((s + utcoffset s) div 86400) = (y, m, d)"
    by (cases "civil_from_days ((s + utcoffset s) div 86400)") auto
  have "- 5 \<le> (s + utcoffset s) div 86400" "(s + utcoffset s) div 86400 \<le> 99425"
    using assms by simp_all
  with c have "1600 \<le> y \<and> y \<le> 2401"
    by (rule civil_from_days_year)
  then show ?thesis
    by (simp add: year_ok_def year_of_local_def c)
qed

lemma fromtimestamp_returns:
  assumes t: "0 \<le> t" "t < 8589934592000" and off: "\<forall>s. \<bar>utcoffset s\<bar> < 86400"
  shows "fromtimestamp utcoffset (py_truediv t 1000)
    = Some (t div 1000 + utcoffset (t div 1000), (t mod 1000) * 1000)"
proof -
  define sec where "sec = t div 1000"
  have sec: "0 \<le> sec" "sec < 8589934592"
    using t by (simp_all add: sec_def)
  have o: "- 86400 < utcoffset x" "utcoffset x < 86400" for x
    using off [rule_format, of x] by simp_all
  have "year_ok (year_of_local utcoffset sec)"
    using sec o [of sec] by (intro year_ok_local) simp_all
  moreover have "year_ok (year_of_local utcoffset (sec - 86400))"
    using sec o [of "sec - 86400"] by (intro year_ok_local) simp_all
  moreover have "year_ok (year_of_local utcoffset (sec + (utcoffset sec - utcoffset (sec - 86400))))"
    using sec o [of sec] o [of "sec - 86400"]
      o [of "sec + (utcoffset sec - utcoffset (sec - 86400))"]
    by (intro year_ok_local) simp_all
  ultimately show ?thesis
    using to_timeval_py_truediv [OF t]
    by (simp add: fromtimestamp_def Let_def flip: sec_def)
qed

lemma normalize_trade_data_returns:
  assumes "0 \<le> t" and "t < 8589934592000" and "\<forall>s. \<bar>utcoffset s\<bar> < 86400"
    and "msg_T data = Some t" and "msg_p data = Some price" and "msg_q data = Some qty"
  shows "normalize_trade_data utcoffset symbol data
    = Some (isoformat (t div 1000 + utcoffset (t div 1000)) ((t mod 1000) * 1000),
        symbol, price, qty)"
  using assms(4-6) fromtimestamp_returns [OF assms(1-3)]
  by (simp add: normalize_trade_data_def)

lemma utc_instant_of_isoformat:
  assumes l: "- 432000 \<le> local" "local \<le> 8590320000" and us: "0 \<le> us" "us < 1000000"
  shows "utc_instant_of_text (isoformat local us) = Some (local * 1000000 + us)"
proof -
  obtain y m d where c: "civil_from_days (local div 86400) = (y, m, d)"
    by (cases "civil_from_days (local div 86400)") auto
  have "- 5 \<le> local div 86400" "local div 86400 \<le> 99425"
    using l by simp_all
  with c have "1600 \<le> y \<and> y \<le> 2401"
    by (rule civil_from_days_year)
  then have "0 \<le> y" "y \<le> 9999"
    by simp_all
  with c have rd: "iso8601_reading (isoformat local us)
    = Some (y, m, d, local mod 86400 div 3600, local mod 86400 div 60 mod 60,
        local mod 86400 mod 60, us)"
    using us by (rule iso8601_reading_isoformat)
  have dc: "days_from_civil y m d = local div 86400"
    using c by (rule days_from_civil_inverse)
  define r where "r = local mod 86400"
  define q where "q = local div 86400"
  have "r div 3600 * 3600 + r div 60 mod 60 * 60 + r mod 60 = r"
    by (rule time_of_day) (simp_all add: r_def)
  moreover have "q * 86400 + r = local"
    by (simp add: q_def r_def)
  ultimately have "q * 86400 + (r div 3600 * 3600 + r div 60 mod 60 * 60 + r mod 60) = local"
    by (simp only:)
  then have "(q * 86400 + r div 3600 * 3600 + r div 60 mod 60 * 60 + r mod 60) * 1000000 + us
      = local * 1000000 + us"
    by (simp only: add.assoc)
  then show ?thesis
    unfolding utc_instant_of_text_def rd
    by (simp only: option.case prod.case q_def r_def dc)
qed

text \<open>Beyond \<open>2\<^sup>3\<^sup>3\<close> seconds the float division does lose milliseconds.\<close>

lemma floor_log2_eq:
  assumes "2 ^ n \<le> x" and "x < 2 ^ Suc n"
  shows "\<lfloor>log 2 x\<rfloor> = int n"
proof -
  have x: "0 < x"
    using assms(1) by (meson less_le_trans zero_less_numeral zero_less_power)
  have "of_nat n \<le> log 2 x"
    using assms(1) x by (simp add: le_log_iff powr_realpow)
  then have "int n \<le> \<lfloor>log 2 x\<rfloor>"
    by (simp add: le_floor_iff)
  moreover have "\<lfloor>log 2 x\<rfloor> < int (Suc n)"
    using x assms(2) by (rule floor_log2_less)
  ultimately show ?thesis
    by simp
qed

lemma fl64_eval:
  assumes "2 ^ n \<le> x" and "x < 2 ^ Suc n" and "n \<le> 52"
  shows "fl64 x = of_int (round_half_even (x * 2 ^ (52 - n))) / 2 ^ (52 - n)"
proof -
  have x: "0 < x"
    using assms(1) by (meson less_le_trans zero_less_numeral zero_less_power)
  have e: "\<lfloor>log 2 x\<rfloor> = int n"
    using assms(1,2) by (rule floor_log2_eq)
  have "real n - 52 = - of_nat (52 - n)"
    using assms(3) by simp
  then have "(2::real) powr (real n - 52) = 2 powr - of_nat (52 - n)"
    by (simp only:)
  also have "\<dots> = 1 / 2 ^ (52 - n)"
    by (simp only: powr_minus powr_realpow [of 2, simplified]) (simp add: field_simps)
  finally have q: "(2::real) powr (real n - 52) = 1 / 2 ^ (52 - n)" .
  show ?thesis
    using x by (simp add: fl64_def Let_def e q)
qed

lemma py_truediv_after_2242: "py_truediv 8589934592123 1000 = 4503599627434983 / 524288"
proof -
  have "fl64 (8589934592123 / 1000)
      = of_int (round_half_even (8589934592123 / 1000 * 2 ^ (52 - 33))) / 2 ^ (52 - 33)"
    by (rule fl64_eval) simp_all
  moreover have "round_half_even (8589934592123 / 1000 * 2 ^ (52 - 33)) = 4503599627434983"
    by (simp add: round_half_even_def Let_def)
  ultimately show ?thesis
    by (simp add: py_truediv_def)
qed

lemma to_timeval_after_2242:
  "to_timeval (4503599627434983 / 524288) = (8589934592, 122999)"
proof -
  have "fl64 (1007609375 / 8192)
      = of_int (round_half_even (1007609375 / 8192 * 2 ^ (52 - 16))) / 2 ^ (52 - 16)"
    by (rule fl64_eval) simp_all
  moreover have "round_half_even (1007609375 / 8192 * 2 ^ (52 - 16)) = 8452440064000000"
    by (simp add: round_half_even_def Let_def)
  ultimately have f: "fl64 (1007609375 / 8192) = 1007609375 / 8192"
    by simp
  have "round_half_even (1007609375 / 8192) = 122999"
    by (simp add: round_half_even_def Let_def)
  then have r: "round_half_even (fl64 (1007609375 / 8192)) = 122999"
    by (simp only: f)
  have "\<lfloor>4503599627434983 / 524288 :: real\<rfloor> = 8589934592"
    by simp
  then show ?thesis
    by (simp add: to_timeval_def Let_def r)
qed

lemma civil_19675: "civil_from_days 19675 = (2023, 11, 14)"
  unfolding civil_from_days_def by (simp only: Let_def) simp

lemma civil_99420: "civil_from_days 99420 = (2242, 3, 16)"
  unfolding civil_from_days_def by (simp only: Let_def) simp

lemma isoformat_utc_example:
  "isoformat 1700000000 123000 = ''2023-11-14T22:13:20.123000''"
  unfolding isoformat_def
  by (simp add: civil_19675 pad2_def pad4_def pad6_def digit_def)

lemma isoformat_plus1_example:
  "isoformat 1700003600 123000 = ''2023-11-14T23:13:20.123000''"
  unfolding isoformat_def
  by (simp add: civil_19675 pad2_def pad4_def pad6_def digit_def)

lemma isoformat_after_2242:
  "isoformat 8589934592 122999 = ''2242-03-16T12:56:32.122999''"
  unfolding isoformat_def
  by (simp add: civil_99420 pad2_def pad4_def pad6_def digit_def)

lemma fromtimestamp_after_2242:
  "fromtimestamp host_utc (py_truediv 8589934592123 1000) = Some (8589934592, 122999)"
proof -
  have "year_ok (year_of_local host_utc 8589934592)"
    by (rule year_ok_local) (simp_all add: host_utc_def)
  moreover have "year_ok (year_of_local host_utc (8589934592 - 86400))"
    by (rule year_ok_local) (simp_all add: host_utc_def)
  ultimately show ?thesis
    by (simp add: fromtimestamp_def py_truediv_after_2242 to_timeval_after_2242 host_utc_def)
qed

lemma fl64_of_negative_int:
  assumes "k < 0" and "- (2 ^ 53) < k"
  shows "fl64 (of_int k) = of_int k"
proof -
  define e where "e = \<lfloor>log 2 \<bar>of_int k :: real\<bar>\<rfloor>"
  define q :: real where "q = 2 powr (of_int e - 52)"
  have "(0::real) < \<bar>of_int k\<bar>" "\<bar>of_int k :: real\<bar> < 2 ^ 53"
    using assms by simp_all
  then have "e < 53"
    using floor_log2_less [of "\<bar>of_int k\<bar>" 53] by (simp add: e_def)
  then have "(of_int e :: real) - 52 = - of_int (int (nat (52 - e)))"
    by simp
  then have "q = 2 powr - of_int (int (nat (52 - e)))"
    by (simp add: q_def)
  also have "\<dots> = 1 / 2 ^ nat (52 - e)"
    by (simp only: powr_minus of_int_of_nat_eq powr_realpow [of 2, simplified]) (simp add: field_simps)
  finally have q: "q = 1 / 2 ^ nat (52 - e)" .
  have "of_int k / q = (of_int (k * 2 ^ nat (52 - e)) :: real)"
    by (simp add: q)
  then have "round_half_even (of_int k / q) = k * 2 ^ nat (52 - e)"
    by (simp only: round_half_even_of_int)
  moreover have "fl64 (of_int k) = of_int (round_half_even (of_int k / q)) * q"
    using assms(1) by (simp add: fl64_def Let_def e_def q_def)
  ultimately show ?thesis
    by (simp add: q)
qed

lemma civil_first_day: "civil_from_days (- 719162) = (1, 1, 1)"
  unfolding civil_from_days_def by (simp only: Let_def) simp

lemma civil_day_before: "civil_from_days (- 719163) = (0, 12, 31)"
  unfolding civil_from_days_def by (simp only: Let_def) simp

text \<open>
  The first day of the year 1 is a date of \<^verbatim>\<open>datetime\<close>, but \<^verbatim>\<open>fromtimestamp\<close> rejects its
  trade times, because it also looks at the instant one day earlier: the message ends in
  the \<^verbatim>\<open>except\<close> branch.
\<close>

lemma first_day_of_year_1_rejected:
  "normalize_trade_data host_utc symbol
     \<lparr>msg_T = Some (- 62135596800000), msg_p = Some price, msg_q = Some qty\<rparr> = None"
proof -
  have "(of_int (- 62135596800000) :: real) / of_int 1000 = of_int (- 62135596800)"
    by simp
  then have "py_truediv (- 62135596800000) 1000 = fl64 (of_int (- 62135596800))"
    by (simp only: py_truediv_def)
  also have "\<dots> = of_int (- 62135596800)"
    by (rule fl64_of_negative_int) simp_all
  finally have d: "py_truediv (- 62135596800000) 1000 = - 62135596800"
    by simp
  have "fl64 0 = 0"
    by (simp add: fl64_def)
  moreover have "round_half_even 0 = 0"
    using round_half_even_of_int [of 0] by simp
  ultimately have tv: "to_timeval (- 62135596800) = (- 62135596800, 0)"
    by (simp add: to_timeval_def)
  have "\<not> year_ok (year_of_local host_utc (- 62135596800 - 86400))"
    by (simp add: year_ok_def year_of_local_def host_utc_def civil_day_before)
  then have "fromtimestamp host_utc (- 62135596800) = None"
    by (simp add: fromtimestamp_def tv Let_def)
  then show ?thesis
    by (simp add: normalize_trade_data_def d)
qed

text \<open>
  C5, as stated, fails.  The trade time 1700000000123 is 2023-11-14T22:13:20.123 in UTC.
  A host on UTC stores that text, a host one hour east of UTC stores 23:13:20.123 for the
  same message: the stored text depends on the host's time zone.  And the division by
  1000 is a float division: for the trade time 8589934592123, in the year 2242, the host
  on UTC stores 122999 microseconds, not 123 milliseconds.
\<close>

theorem stored_timestamp_depends_on_host:
  "normalize_trade_data host_utc ''btcusdt'' trade_example
     = Some (''2023-11-14T22:13:20.123000'', ''btcusdt'', 4300010 / 100, 5 / 1000)
   \<and> normalize_trade_data host_plus1 ''btcusdt'' trade_example
     = Some (''2023-11-14T23:13:20.123000'', ''btcusdt'', 4300010 / 100, 5 / 1000)
   \<and> normalize_trade_data host_utc ''btcusdt''
        \<lparr>msg_T = Some 8589934592123, msg_p = Some (4300010 / 100), msg_q = Some (5 / 1000)\<rparr>
     = Some (''2242-03-16T12:56:32.122999'', ''btcusdt'', 4300010 / 100, 5 / 1000)"
proof (intro conjI)
  have "normalize_trade_data host_utc ''btcusdt'' trade_example
    = Some (isoformat (1700000000123 div 1000 + host_utc (1700000000123 div 1000))
        ((1700000000123 mod 1000) * 1000), ''btcusdt'', 4300010 / 100, 5 / 1000)"
    by (rule normalize_trade_data_returns) (simp_all add: trade_example_def host_utc_def)
  then show "normalize_trade_data host_utc ''btcusdt'' trade_example
     = Some (''2023-11-14T22:13:20.123000'', ''btcusdt'', 4300010 / 100, 5 / 1000)"
    by (simp add: host_utc_def isoformat_utc_example)
next
  have "normalize_trade_data host_plus1 ''btcusdt'' trade_example
    = Some (isoformat (1700000000123 div 1000 + host_plus1 (1700000000123 div 1000))
        ((1700000000123 mod 1000) * 1000), ''btcusdt'', 4300010 / 100, 5 / 1000)"
    by (rule normalize_trade_data_returns) (simp_all add: trade_example_def host_plus1_def)
  then show "normalize_trade_data host_plus1 ''btcusdt'' trade_example
     = Some (''2023-11-14T23:13:20.123000'', ''btcusdt'', 4300010 / 100, 5 / 1000)"
    by (simp add: host_plus1_def isoformat_plus1_example)
next
  show "normalize_trade_data host_utc ''btcusdt''
        \<lparr>msg_T = Some 8589934592123, msg_p = Some (4300010 / 100), msg_q = Some (5 / 1000)\<rparr>
     = Some (''2242-03-16T12:56:32.122999'', ''btcusdt'', 4300010 / 100, 5 / 1000)"
    by (simp add: normalize_trade_data_def fromtimestamp_after_2242 isoformat_after_2242)
qed

text \<open>
  C5, amended.  For a trade time \<open>T\<close> from 1970 up to \<open>2\<^sup>3\<^sup>3\<close> seconds (March 2242), with a
  price and a quantity, on a host whose offset from UTC is always less than a day, the
  message is normalised, and the stored timestamp is a well-formed text
  \<^verbatim>\<open>YYYY-MM-DDTHH:MM:SS\<close>, of 19 characters when \<open>T\<close> is a whole second and else of 26 with
  six digits of microseconds, which, read as a UTC time, denotes the instant \<open>T\<close> plus the
  host's offset from UTC at \<open>T\<close>, a whole number of milliseconds: it is the host's local
  wall-clock time at \<open>T\<close>.  It is the text a host on UTC stores exactly when the host's
  offset at \<open>T\<close> is zero.
\<close>

theorem stored_timestamp_is_local_time:
  assumes "0 \<le> t" and "t < 8589934592000" and "\<forall>s. \<bar>utcoffset s\<bar> < 86400"
    and "msg_T data = Some t" and "msg_p data = Some price" and "msg_q data = Some qty"
  shows "\<exists>stamp. normalize_trade_data utcoffset symbol data = Some (stamp, symbol, price, qty)
      \<and> length stamp = (if t mod 1000 = 0 then 19 else 26)
      \<and> utc_instant_of_text stamp = Some (1000 * (t + 1000 * utcoffset (t div 1000)))
      \<and> (normalize_trade_data host_utc symbol data = Some (stamp, symbol, price, qty)
           \<longleftrightarrow> utcoffset (t div 1000) = 0)"
proof -
  define sec where "sec = t div 1000"
  define us where "us = (t mod 1000) * 1000"
  define stamp where "stamp = isoformat (sec + utcoffset sec) us"
  have t: "t = 1000 * sec + t mod 1000"
    by (simp add: sec_def)
  have sec: "0 \<le> sec" "sec < 8589934592"
    using assms(1,2) by (simp_all add: sec_def)
  have us: "0 \<le> us" "us < 1000000"
    by (simp_all add: us_def)
  have o: "- 86400 < utcoffset sec" "utcoffset sec < 86400"
    using assms(3) [rule_format, of sec] by simp_all
  have n: "normalize_trade_data utcoffset symbol data = Some (stamp, symbol, price, qty)"
    unfolding stamp_def sec_def us_def using assms by (rule normalize_trade_data_returns)
  have "\<forall>s. \<bar>host_utc s\<bar> < 86400"
    by (simp add: host_utc_def)
  with assms(1,2) have "normalize_trade_data host_utc symbol data
      = Some (isoformat (t div 1000 + host_utc (t div 1000)) ((t mod 1000) * 1000),
          symbol, price, qty)"
    using assms(4-6) by (rule normalize_trade_data_returns)
  then have nu: "normalize_trade_data host_utc symbol data
      = Some (isoformat sec us, symbol, price, qty)"
    by (simp add: host_utc_def sec_def us_def)
  obtain y m d where c: "civil_from_days ((sec + utcoffset sec) div 86400) = (y, m, d)"
    by (cases "civil_from_days ((sec + utcoffset sec) div 86400)") auto
  have "length stamp = (if us = 0 then 19 else 26)"
    unfolding stamp_def using c by (rule isoformat_fields)
  then have len: "length stamp = (if t mod 1000 = 0 then 19 else 26)"
    by (simp add: us_def)
  have "utc_instant_of_text stamp = Some ((sec + utcoffset sec) * 1000000 + us)"
    unfolding stamp_def using sec o us by (intro utc_instant_of_isoformat) simp_all
  moreover have "(sec + utcoffset sec) * 1000000 + us = 1000 * (t + 1000 * utcoffset sec)"
    using t by (simp add: us_def algebra_simps)
  ultimately have inst: "utc_instant_of_text stamp = Some (1000 * (t + 1000 * utcoffset sec))"
    by (simp only:)
  have "utc_instant_of_text (isoformat sec us) = Some (sec * 1000000 + us)"
    using sec us by (intro utc_instant_of_isoformat) simp_all
  moreover have "sec * 1000000 + us = 1000 * t"
    using t by (simp add: us_def algebra_simps)
  ultimately have instu: "utc_instant_of_text (isoformat sec us) = Some (1000 * t)"
    by (simp only:)
  have "(isoformat sec us = stamp) \<longleftrightarrow> utcoffset sec = 0"
  proof
    assume "isoformat sec us = stamp"
    with inst instu have "1000 * t = 1000 * (t + 1000 * utcoffset sec)"
      by simp
    then show "utcoffset sec = 0"
      by simp
  next
    assume "utcoffset sec = 0"
    then show "isoformat sec us = stamp"
      by (simp add: stamp_def)
  qed
  with n nu len inst show ?thesis
    by (auto simp: sec_def)
qed

theorem stored_timestamp_is_local_time_witness:
  "\<exists>stamp. normalize_trade_data host_plus1 ''btcusdt'' trade_example
        = Some (stamp, ''btcusdt'', 4300010 / 100, 5 / 1000)
      \<and> length stamp = 26
      \<and> utc_instant_of_text stamp = Some 1700003600123000
      \<and> normalize_trade_data host_utc ''btcusdt'' trade_example
        \<noteq> Some (stamp, ''btcusdt'', 4300010 / 100, 5 / 1000)"
  using stored_timestamp_is_local_time [of 1700000000123 host_plus1 trade_example
      "4300010 / 100" "5 / 1000" "''btcusdt''"]
  by (simp add: trade_example_def host_plus1_def)

end
